theory Spec2Isabelle
  imports Main
begin

section \<open>SimpleVector: a growable array over an owned heap buffer\<close>

text \<open>
  The repository holds the class template \<open>ArrayPtr\<close> (\<^verbatim>\<open>src/array_ptr.h\<close>) and two
  variants of the class template \<open>SimpleVector\<close> built on it:
  \<^item> variant A: \<^verbatim>\<open>src/simple_vector.h\<close>,
  \<^item> variant B: \<^verbatim>\<open>src/unnamed/part_000\<close>.
  Member functions whose text is the same in both files are embedded once; the ones that
  differ (\<open>Reserve\<close>, \<open>Resize\<close>, \<open>PushBack\<close>, \<open>Insert\<close>, \<open>Erase\<close>, two constructors,
  and \<open>Expand\<close>, which only B has) carry the suffix \<open>_A\<close> or \<open>_B\<close>.

  Conventions of the embedding.
  \<^item> \<open>size_t\<close> values are \<open>nat\<close>. A block of \<open>n\<close> elements occupies at least \<open>n\<close> bytes
    and no object is larger than \<open>PTRDIFF_MAX < 2^63\<close> bytes, so \<open>capacity_ * 2\<close> and
    \<open>++size_\<close> stay below \<open>2^64\<close> and never wrap. Allocation is taken to succeed.
  \<^item> \<open>int\<close> is 32 bits wide, two's complement (ILP32, LP64 and LLP64 alike); the
    narrowing in \<^verbatim>\<open>int offset = pos - begin();\<close> is written out in \<open>to_int\<close>.
  \<^item> An element type \<open>Type\<close> is a HOL type \<open>'a\<close> together with two parameters that the
    functions take where the source needs them: \<open>dflt\<close>, the value of \<^verbatim>\<open>Type{}\<close>, and
    \<open>mv\<close>, the value a moved-from element is left with (the identity for \<open>int\<close>, the
    empty string for \<open>std::string\<close>).
  \<^item> The parameter \<open>value\<close> of \<open>PushBack\<close> and \<open>Insert\<close> is a reference
    (\<^verbatim>\<open>const Type&\<close> in one overload, \<^verbatim>\<open>Type&&\<close> in the other), and the object it refers
    to may be an element of the vector itself: an argument is an \<open>arg\<close>, which says where
    the object lies, and it is read at the statement of the source that reads it.
  \<^item> An exception and undefined behaviour are values of \<open>error\<close>; a member function that
    can run into either returns \<open>error + result\<close>.
  \<^item> The record fields \<open>sv_data\<close>, \<open>sv_size\<close>, \<open>sv_capacity\<close> are the members
    \<open>data_\<close>, \<open>size_\<close>, \<open>capacity_\<close> (a name cannot end in an underscore here).
\<close>

datatype error =
    OutOfRange               \<comment> \<open>\<open>std::out_of_range\<close> thrown by \<open>At\<close>\<close>
  | UndefinedBehaviour       \<comment> \<open>an access or an iterator range outside the block\<close>

definition to_int :: "nat \<Rightarrow> int" where
  \<comment> \<open>conversion of a non-negative \<open>ptrdiff_t\<close> to \<open>int\<close>\<close>
  "to_int p = (int p + 2 ^ 31) mod 2 ^ 32 - 2 ^ 31"


subsection \<open>The standard algorithms the source calls\<close>

text \<open>
  Iterators into a block are indices into the list of its slots. \<open>std_fill\<close> is
  \<open>std::fill(first, last, v)\<close>; \<open>std_copy\<close> is \<open>std::copy(first, last, d_first)\<close> from
  one block into another one (what it leaves in a source read through move iterators is
  dropped: each source block of such a call is deleted right after it).
\<close>

function std_fill :: "nat \<Rightarrow> nat \<Rightarrow> 'a \<Rightarrow> 'a list \<Rightarrow> 'a list" where
  "std_fill first last' v xs =
     (if first < last' then std_fill (Suc first) last' v (xs[first := v]) else xs)"
  by pat_completeness auto
termination
  by (relation "measure (\<lambda>(first, last', v, xs). last' - first)") auto

function std_copy :: "'a list \<Rightarrow> nat \<Rightarrow> nat \<Rightarrow> nat \<Rightarrow> 'a list \<Rightarrow> 'a list" where
  "std_copy src first last' d_first dst =
     (if first < last'
      then std_copy src (Suc first) last' (Suc d_first) (dst[d_first := src ! first])
      else dst)"
  by pat_completeness auto
termination
  by (relation "measure (\<lambda>(src, first, last', d_first, dst). last' - first)") auto

text \<open>
  Inside one block, over move iterators: every step move-assigns one element, which
  leaves \<open>mv\<close> of it behind. Variant A calls \<open>std::move\<close> and \<open>std::move_backward\<close>,
  variant B \<open>std::copy\<close> and \<open>std::copy_backward\<close>; on \<open>std::move_iterator\<close>s the
  assignment \<^verbatim>\<open>*d = *it\<close> of the copying algorithms has an rvalue on its right, so it
  is the same move assignment.
\<close>

function std_move :: "('a \<Rightarrow> 'a) \<Rightarrow> nat \<Rightarrow> nat \<Rightarrow> nat \<Rightarrow> 'a list \<Rightarrow> 'a list" where
  "std_move mv first last' d_first xs =
     (if first < last'
      then std_move mv (Suc first) last' (Suc d_first)
             (xs[d_first := xs ! first, first := mv (xs ! first)])
      else xs)"
  by pat_completeness auto
termination
  by (relation "measure (\<lambda>(mv, first, last', d_first, xs). last' - first)") auto

function std_move_backward :: "('a \<Rightarrow> 'a) \<Rightarrow> nat \<Rightarrow> nat \<Rightarrow> nat \<Rightarrow> 'a list \<Rightarrow> 'a list" where
  "std_move_backward mv first last' d_last xs =
     (if first < last'
      then std_move_backward mv first (last' - 1) (d_last - 1)
             (xs[d_last - 1 := xs ! (last' - 1), last' - 1 := mv (xs ! (last' - 1))])
      else xs)"
  by pat_completeness auto
termination
  by (relation "measure (\<lambda>(mv, first, last', d_last, xs). last' - first)") auto

function std_copy_mi :: "('a \<Rightarrow> 'a) \<Rightarrow> nat \<Rightarrow> nat \<Rightarrow> nat \<Rightarrow> 'a list \<Rightarrow> 'a list" where
  "std_copy_mi mv first last' d_first xs =
     (if first < last'
      then std_copy_mi mv (Suc first) last' (Suc d_first)
             (xs[d_first := xs ! first, first := mv (xs ! first)])
      else xs)"
  by pat_completeness auto
termination
  by (relation "measure (\<lambda>(mv, first, last', d_first, xs). last' - first)") auto

function std_copy_backward_mi :: "('a \<Rightarrow> 'a) \<Rightarrow> nat \<Rightarrow> nat \<Rightarrow> nat \<Rightarrow> 'a list \<Rightarrow> 'a list" where
  "std_copy_backward_mi mv first last' d_last xs =
     (if first < last'
      then std_copy_backward_mi mv first (last' - 1) (d_last - 1)
             (xs[d_last - 1 := xs ! (last' - 1), last' - 1 := mv (xs ! (last' - 1))])
      else xs)"
  by pat_completeness auto
termination
  by (relation "measure (\<lambda>(mv, first, last', d_last, xs). last' - first)") auto

declare std_fill.simps [simp del] std_copy.simps [simp del] std_move.simps [simp del]
  std_move_backward.simps [simp del] std_copy_mi.simps [simp del]
  std_copy_backward_mi.simps [simp del]


subsection \<open>ArrayPtr (\<^verbatim>\<open>src/array_ptr.h\<close>)\<close>

text \<open>
  \<open>raw_ptr_\<close> is \<open>None\<close> for \<open>nullptr\<close> and \<open>Some xs\<close> for a heap block with the slots
  \<open>xs\<close>. An \<open>ArrayPtr\<close> owns its block and cannot be copied, so the block is held by
  value: \<open>swap\<close> and \<open>MoveFrom\<close> pass it on, and the destructor's \<^verbatim>\<open>delete[]\<close> is
  the end of the value's scope.
\<close>

type_synonym 'a ArrayPtr = "'a list option"

definition ArrayPtr_size :: "'a \<Rightarrow> nat \<Rightarrow> 'a ArrayPtr" where
  \<comment> \<open>\<^verbatim>\<open>ArrayPtr(size_t size)\<close>: \<^verbatim>\<open>new Type[size]{}\<close>, or nullptr when \<open>size == 0\<close>\<close>
  "ArrayPtr_size dflt n = (if n = 0 then None else Some (replicate n dflt))"

definition ArrayPtr_fill :: "'a \<Rightarrow> nat \<Rightarrow> 'a \<Rightarrow> 'a ArrayPtr" where
  \<comment> \<open>\<^verbatim>\<open>ArrayPtr(size_t size, const Type& value)\<close>\<close>
  "ArrayPtr_fill dflt n v =
     (if n = 0 then None else Some (std_fill 0 n v (replicate n dflt)))"

fun init_loop :: "'a list \<Rightarrow> nat \<Rightarrow> 'a list \<Rightarrow> 'a list" where
  \<comment> \<open>the \<open>for\<close> loop of \<^verbatim>\<open>ArrayPtr(std::initializer_list<Type>)\<close>\<close>
  "init_loop [] counter xs = xs"
| "init_loop (x # it) counter xs = init_loop it (counter + 1) (xs[counter := x])"

definition ArrayPtr_init :: "'a \<Rightarrow> 'a list \<Rightarrow> 'a ArrayPtr" where
  \<comment> \<open>\<^verbatim>\<open>new Type[init.size()]\<close> is a block also when the list is empty\<close>
  "ArrayPtr_init dflt init = Some (init_loop init 0 (replicate (length init) dflt))"

definition Get :: "'a ArrayPtr \<Rightarrow> 'a list" where
  \<comment> \<open>the slots \<open>Get()\<close> points at; none behind nullptr\<close>
  "Get p = (case p of None \<Rightarrow> [] | Some xs \<Rightarrow> xs)"

definition ArrayPtr_index :: "'a ArrayPtr \<Rightarrow> nat \<Rightarrow> error + 'a" where
  \<comment> \<open>reading \<^verbatim>\<open>raw_ptr_[index]\<close>\<close>
  "ArrayPtr_index p i =
     (if i < length (Get p) then Inr (Get p ! i) else Inl UndefinedBehaviour)"

definition ArrayPtr_assign :: "nat \<Rightarrow> 'a \<Rightarrow> 'a ArrayPtr \<Rightarrow> 'a ArrayPtr" where
  \<comment> \<open>\<^verbatim>\<open>raw_ptr_[index] = v\<close>, for an index inside the block\<close>
  "ArrayPtr_assign i v p = map_option (\<lambda>xs. xs[i := v]) p"


subsection \<open>SimpleVector: members shared by both variants\<close>

record 'a SimpleVector =
  sv_data :: "'a ArrayPtr"
  sv_size :: nat
  sv_capacity :: nat

definition SimpleVector_default :: "'a SimpleVector" where
  \<comment> \<open>\<^verbatim>\<open>SimpleVector() noexcept = default\<close>, the members' initialisers\<close>
  "SimpleVector_default = \<lparr>sv_data = None, sv_size = 0, sv_capacity = 0\<rparr>"

definition SimpleVector_size :: "'a \<Rightarrow> nat \<Rightarrow> 'a SimpleVector" where
  \<comment> \<open>\<^verbatim>\<open>explicit SimpleVector(size_t size)\<close>\<close>
  "SimpleVector_size dflt n =
     \<lparr>sv_data = ArrayPtr_size dflt n, sv_size = n, sv_capacity = n\<rparr>"

definition GetSize :: "'a SimpleVector \<Rightarrow> nat" where
  "GetSize v = sv_size v"

definition GetCapacity :: "'a SimpleVector \<Rightarrow> nat" where
  "GetCapacity v = sv_capacity v"

definition IsEmpty :: "'a SimpleVector \<Rightarrow> bool" where
  "IsEmpty v = (sv_size v = 0)"

definition live :: "'a SimpleVector \<Rightarrow> 'a list" where
  \<comment> \<open>the range \<open>[begin(), end())\<close>: the first \<open>size_\<close> slots of the block\<close>
  "live v = take (sv_size v) (Get (sv_data v))"

definition index_op :: "nat \<Rightarrow> 'a SimpleVector \<Rightarrow> error + 'a" where
  \<comment> \<open>\<^verbatim>\<open>operator[](size_t index)\<close>: no check of its own\<close>
  "index_op i v = ArrayPtr_index (sv_data v) i"

definition At :: "nat \<Rightarrow> 'a SimpleVector \<Rightarrow> error + 'a" where
  "At i v = (if i \<ge> sv_size v then Inl OutOfRange else ArrayPtr_index (sv_data v) i)"

definition Clear :: "'a SimpleVector \<Rightarrow> 'a SimpleVector" where
  "Clear v = v\<lparr>sv_size := 0\<rparr>"

definition PopBack :: "'a SimpleVector \<Rightarrow> 'a SimpleVector" where
  "PopBack v = v\<lparr>sv_size := (if sv_size v > 0 then sv_size v - 1 else 0)\<rparr>"

definition valid :: "'a SimpleVector \<Rightarrow> bool" where
  \<comment> \<open>the class invariant: the block has \<open>capacity_\<close> slots, \<open>size_\<close> of them live\<close>
  "valid v \<longleftrightarrow> sv_size v \<le> sv_capacity v \<and> length (Get (sv_data v)) = sv_capacity v"

text \<open>
  A reference parameter \<open>value\<close> of a member function of a vector. \<open>Outside x\<close> refers to
  an object with the value \<open>x\<close> that is no slot of the vector's block (a local, a
  temporary, an element of another container). \<open>Slot i\<close> refers to slot \<open>i\<close> of the
  block the vector holds when the call begins, as \<^verbatim>\<open>v.PushBack(v[i])\<close> passes it. The
  two overloads of \<open>PushBack\<close> and of \<open>Insert\<close> have the same text but for the one
  assignment from \<open>value\<close>: \<open>Copying\<close> is the overload taking \<^verbatim>\<open>const Type&\<close>, \<open>Moving\<close>
  the one taking \<^verbatim>\<open>Type&&\<close>.

  \<open>assign_value\<close> is that assignment, \<^verbatim>\<open>data_[index] = value\<close> or
  \<^verbatim>\<open>data_[index] = std::move(value)\<close>, on the block \<open>data_\<close> holds at that moment;
  \<open>deleted\<close> says that the block of the beginning of the call has been deleted since.
  Reading through a reference into a deleted block, or one that is no slot of the block,
  is undefined behaviour. A move assignment leaves \<open>mv\<close> of the value in the slot it
  reads, after the destination has been written (also when both are the same slot); what
  it leaves in an object outside the block is not part of the vector.
\<close>

datatype 'a arg =
    Outside 'a
  | Slot nat

datatype overload = Copying | Moving

definition assign_value ::
  "overload \<Rightarrow> ('a \<Rightarrow> 'a) \<Rightarrow> bool \<Rightarrow> nat \<Rightarrow> 'a arg \<Rightarrow> 'a ArrayPtr \<Rightarrow> error + 'a ArrayPtr" where
  "assign_value ov mv deleted index val p =
     (case val of
        Outside x \<Rightarrow> Inr (ArrayPtr_assign index x p)
      | Slot i \<Rightarrow>
          if deleted \<or> length (Get p) \<le> i then Inl UndefinedBehaviour
          else (case ov of
                  Copying \<Rightarrow> Inr (ArrayPtr_assign index (Get p ! i) p)
                | Moving \<Rightarrow>
                    Inr (ArrayPtr_assign i (mv (Get p ! i))
                          (ArrayPtr_assign index (Get p ! i) p))))"

text \<open>
  Copying, moving and swapping involve two vectors, \<open>*this\<close> and \<open>other\<close>, which may be
  the same object. Objects are therefore held in a store and named by their addresses; a
  member function reads and writes the members of \<open>this\<close> and \<open>other\<close> through the store,
  statement by statement, so that \<open>this = other\<close> aliases as it does in the source.
  \<open>ArrayPtr_MoveFrom\<close> and \<open>ArrayPtr_swap\<close> are \<open>ArrayPtr::MoveFrom\<close> and
  \<open>ArrayPtr::swap\<close> on the members \<open>data_\<close> of the two objects: \<open>std::exchange\<close> and
  \<open>std::swap\<close> written out. In \<open>CopyAndSwap\<close> the \<open>ArrayPtr temp\<close> is a local: after
  \<open>data_.swap(temp)\<close> it holds the old block, which its destructor deletes. The
  constructors run on an object whose members have their default initialisers.
\<close>

type_synonym 'a objects = "nat \<Rightarrow> 'a SimpleVector"

definition set_data :: "nat \<Rightarrow> 'a ArrayPtr \<Rightarrow> 'a objects \<Rightarrow> 'a objects" where
  "set_data r p s = s(r := (s r)\<lparr>sv_data := p\<rparr>)"

definition set_size :: "nat \<Rightarrow> nat \<Rightarrow> 'a objects \<Rightarrow> 'a objects" where
  "set_size r n s = s(r := (s r)\<lparr>sv_size := n\<rparr>)"

definition set_capacity :: "nat \<Rightarrow> nat \<Rightarrow> 'a objects \<Rightarrow> 'a objects" where
  "set_capacity r n s = s(r := (s r)\<lparr>sv_capacity := n\<rparr>)"

definition ArrayPtr_MoveFrom :: "nat \<Rightarrow> nat \<Rightarrow> 'a objects \<Rightarrow> 'a objects" where
  "ArrayPtr_MoveFrom this other s =
     (let old = sv_data (s other);
          s = set_data other None s
      in set_data this old s)"

definition ArrayPtr_swap :: "nat \<Rightarrow> nat \<Rightarrow> 'a objects \<Rightarrow> 'a objects" where
  "ArrayPtr_swap this other s =
     (let tmp = sv_data (s this);
          s = set_data this (sv_data (s other)) s
      in set_data other tmp s)"

definition MoveFrom :: "nat \<Rightarrow> nat \<Rightarrow> 'a objects \<Rightarrow> 'a objects" where
  "MoveFrom this other s =
     (let s = ArrayPtr_MoveFrom this other s;
          old_size = sv_size (s other);
          s = set_size other 0 s;
          s = set_size this old_size s;
          old_capacity = sv_capacity (s other);
          s = set_capacity other 0 s
      in set_capacity this old_capacity s)"

definition CopyAndSwap :: "'a \<Rightarrow> nat \<Rightarrow> nat \<Rightarrow> 'a objects \<Rightarrow> 'a objects" where
  "CopyAndSwap dflt this other s =
     (let size = sv_size (s other);
          temp = ArrayPtr_size dflt size;
          temp = map_option (std_copy (Get (sv_data (s other))) 0 (sv_size (s other)) 0) temp;
          s = set_data this temp s;
          s = set_capacity this size s
      in set_size this size s)"

definition swap_sv :: "nat \<Rightarrow> nat \<Rightarrow> 'a objects \<Rightarrow> 'a objects" where
  "swap_sv this other s =
     (let s = ArrayPtr_swap this other s;
          tmp = sv_size (s this);
          s = set_size this (sv_size (s other)) s;
          s = set_size other tmp s;
          tmp = sv_capacity (s this);
          s = set_capacity this (sv_capacity (s other)) s
      in set_capacity other tmp s)"

definition copy_construct :: "'a \<Rightarrow> nat \<Rightarrow> nat \<Rightarrow> 'a objects \<Rightarrow> 'a objects" where
  "copy_construct dflt this other s = CopyAndSwap dflt this other (s(this := SimpleVector_default))"

definition move_construct :: "nat \<Rightarrow> nat \<Rightarrow> 'a objects \<Rightarrow> 'a objects" where
  "move_construct this other s = MoveFrom this other (s(this := SimpleVector_default))"

definition copy_assign :: "'a \<Rightarrow> nat \<Rightarrow> nat \<Rightarrow> 'a objects \<Rightarrow> 'a objects" where
  "copy_assign dflt this other s = CopyAndSwap dflt this other s"

definition move_assign :: "nat \<Rightarrow> nat \<Rightarrow> 'a objects \<Rightarrow> 'a objects" where
  "move_assign this other s = MoveFrom this other s"

text \<open>
  The same two members once more, with the blocks at heap addresses, so that every
  \<^verbatim>\<open>new[]\<close> and \<^verbatim>\<open>delete[]\<close> is an event: \<open>blocks\<close> maps an address to the block
  allocated there, \<open>fresh\<close> is the next address \<^verbatim>\<open>new[]\<close> hands out, \<open>vecs\<close> holds the
  vectors, whose \<open>at_data\<close> is the raw pointer. \<^verbatim>\<open>delete[]\<close> of an address that holds no
  block (a second deletion) is undefined behaviour, of \<open>nullptr\<close> it does nothing.
  \<open>copy_at\<close> is the \<open>std::copy\<close> of \<open>CopyAndSwap\<close>; \<open>destroy_at\<close> is the destructor of a
  vector, that is of its \<open>ArrayPtr\<close>. \<open>owns h r\<close> says that vector \<open>r\<close> is as the class
  invariant has it (its pointer is null with capacity 0, or points at an allocated block
  of \<open>capacity\<close> slots) and that no block lies at or beyond \<open>fresh\<close>.
\<close>

record vec_at =
  at_data :: "nat option"
  at_size :: nat
  at_capacity :: nat

record 'a heap =
  blocks :: "nat \<Rightarrow> 'a list option"
  fresh :: nat
  vecs :: "nat \<Rightarrow> vec_at"

definition new_array :: "'a \<Rightarrow> nat \<Rightarrow> 'a heap \<Rightarrow> nat option \<times> 'a heap" where
  "new_array dflt n h =
     (if n = 0 then (None, h)
      else (Some (fresh h),
            h\<lparr>blocks := (blocks h)(fresh h := Some (replicate n dflt)),
              fresh := Suc (fresh h)\<rparr>))"

definition delete_array :: "nat option \<Rightarrow> 'a heap \<Rightarrow> error + 'a heap" where
  "delete_array p h =
     (case p of
        None \<Rightarrow> Inr h
      | Some a \<Rightarrow>
          (case blocks h a of
             None \<Rightarrow> Inl UndefinedBehaviour
           | Some xs \<Rightarrow> Inr (h\<lparr>blocks := (blocks h)(a := None)\<rparr>)))"

definition block_at :: "'a heap \<Rightarrow> nat option \<Rightarrow> 'a list" where
  "block_at h p = (case p of None \<Rightarrow> [] | Some a \<Rightarrow> (case blocks h a of None \<Rightarrow> [] | Some xs \<Rightarrow> xs))"

definition live_at :: "'a heap \<Rightarrow> nat \<Rightarrow> 'a list" where
  "live_at h r = take (at_size (vecs h r)) (block_at h (at_data (vecs h r)))"

definition copy_at :: "nat option \<Rightarrow> nat \<Rightarrow> nat option \<Rightarrow> 'a heap \<Rightarrow> error + 'a heap" where
  "copy_at src n dst h =
     (if n = 0 then Inr h
      else case (src, dst) of
        (Some a, Some t) \<Rightarrow>
          (case (blocks h a, blocks h t) of
             (Some xs, Some ys) \<Rightarrow>
               if n \<le> length xs \<and> n \<le> length ys
               then Inr (h\<lparr>blocks := (blocks h)(t := Some (std_copy xs 0 n 0 ys))\<rparr>)
               else Inl UndefinedBehaviour
           | _ \<Rightarrow> Inl UndefinedBehaviour)
      | _ \<Rightarrow> Inl UndefinedBehaviour)"

definition CopyAndSwap_at :: "'a \<Rightarrow> nat \<Rightarrow> nat \<Rightarrow> 'a heap \<Rightarrow> error + 'a heap" where
  "CopyAndSwap_at dflt this other h =
     (let size = at_size (vecs h other);
          (temp, h) = new_array dflt size h
      in case copy_at (at_data (vecs h other)) (at_size (vecs h other)) temp h of
           Inl e \<Rightarrow> Inl e
         | Inr h \<Rightarrow>
             let old = at_data (vecs h this);
                 h = h\<lparr>vecs := (vecs h)(this := (vecs h this)\<lparr>at_data := temp\<rparr>)\<rparr>;
                 temp = old;
                 h = h\<lparr>vecs := (vecs h)(this := (vecs h this)\<lparr>at_capacity := size\<rparr>)\<rparr>;
                 h = h\<lparr>vecs := (vecs h)(this := (vecs h this)\<lparr>at_size := size\<rparr>)\<rparr>
             in delete_array temp h)"

definition MoveFrom_at :: "nat \<Rightarrow> nat \<Rightarrow> 'a heap \<Rightarrow> 'a heap" where
  "MoveFrom_at this other h =
     (let old = at_data (vecs h other);
          h = h\<lparr>vecs := (vecs h)(other := (vecs h other)\<lparr>at_data := None\<rparr>)\<rparr>;
          h = h\<lparr>vecs := (vecs h)(this := (vecs h this)\<lparr>at_data := old\<rparr>)\<rparr>;
          old = at_size (vecs h other);
          h = h\<lparr>vecs := (vecs h)(other := (vecs h other)\<lparr>at_size := 0\<rparr>)\<rparr>;
          h = h\<lparr>vecs := (vecs h)(this := (vecs h this)\<lparr>at_size := old\<rparr>)\<rparr>;
          old = at_capacity (vecs h other);
          h = h\<lparr>vecs := (vecs h)(other := (vecs h other)\<lparr>at_capacity := 0\<rparr>)\<rparr>
      in h\<lparr>vecs := (vecs h)(this := (vecs h this)\<lparr>at_capacity := old\<rparr>)\<rparr>)"

definition destroy_at :: "nat \<Rightarrow> 'a heap \<Rightarrow> error + 'a heap" where
  "destroy_at r h = delete_array (at_data (vecs h r)) h"

definition owns :: "'a heap \<Rightarrow> nat \<Rightarrow> bool" where
  "owns h r \<longleftrightarrow>
     at_size (vecs h r) \<le> at_capacity (vecs h r) \<and>
     (case at_data (vecs h r) of
        None \<Rightarrow> at_capacity (vecs h r) = 0
      | Some a \<Rightarrow> a < fresh h \<and>
          (case blocks h a of None \<Rightarrow> False | Some xs \<Rightarrow> length xs = at_capacity (vecs h r))) \<and>
     (\<forall>a. fresh h \<le> a \<longrightarrow> blocks h a = None)"

text \<open>
  The comparison operators, over the ranges \<open>[begin(), end())\<close> of the two vectors.
  \<open>std_equal\<close> is the four-iterator \<open>std::equal\<close>, \<open>std_lexicographical_compare\<close> takes
  the element type's \<open>operator<\<close> as \<open>lt\<close>; the element type's \<open>operator==\<close> is equality.
\<close>

fun std_equal :: "'a list \<Rightarrow> 'a list \<Rightarrow> bool" where
  "std_equal [] [] = True"
| "std_equal (x # xs) (y # ys) = (x = y \<and> std_equal xs ys)"
| "std_equal _ _ = False"

fun std_lexicographical_compare :: "('a \<Rightarrow> 'a \<Rightarrow> bool) \<Rightarrow> 'a list \<Rightarrow> 'a list \<Rightarrow> bool" where
  "std_lexicographical_compare lt [] [] = False"
| "std_lexicographical_compare lt [] (y # ys) = True"
| "std_lexicographical_compare lt (x # xs) [] = False"
| "std_lexicographical_compare lt (x # xs) (y # ys) =
     (if lt x y then True else if lt y x then False
      else std_lexicographical_compare lt xs ys)"

definition eq_op :: "'a SimpleVector \<Rightarrow> 'a SimpleVector \<Rightarrow> bool" where
  "eq_op lhs rhs = std_equal (live lhs) (live rhs)"

definition ne_op :: "'a SimpleVector \<Rightarrow> 'a SimpleVector \<Rightarrow> bool" where
  "ne_op lhs rhs = (\<not> eq_op lhs rhs)"

definition lt_op :: "('a \<Rightarrow> 'a \<Rightarrow> bool) \<Rightarrow> 'a SimpleVector \<Rightarrow> 'a SimpleVector \<Rightarrow> bool" where
  "lt_op lt lhs rhs = std_lexicographical_compare lt (live lhs) (live rhs)"

definition gt_op :: "('a \<Rightarrow> 'a \<Rightarrow> bool) \<Rightarrow> 'a SimpleVector \<Rightarrow> 'a SimpleVector \<Rightarrow> bool" where
  "gt_op lt lhs rhs = lt_op lt rhs lhs"

definition le_op :: "('a \<Rightarrow> 'a \<Rightarrow> bool) \<Rightarrow> 'a SimpleVector \<Rightarrow> 'a SimpleVector \<Rightarrow> bool" where
  "le_op lt lhs rhs = (\<not> gt_op lt lhs rhs)"

definition ge_op :: "('a \<Rightarrow> 'a \<Rightarrow> bool) \<Rightarrow> 'a SimpleVector \<Rightarrow> 'a SimpleVector \<Rightarrow> bool" where
  "ge_op lt lhs rhs = (\<not> gt_op lt rhs lhs)"


subsection \<open>SimpleVector, variant A (\<^verbatim>\<open>src/simple_vector.h\<close>)\<close>

definition Reserve_A :: "'a \<Rightarrow> nat \<Rightarrow> 'a SimpleVector \<Rightarrow> 'a SimpleVector" where
  "Reserve_A dflt new_capacity v =
     (if sv_capacity v \<noteq> 0 \<and> sv_capacity v \<ge> new_capacity then v
      else let new_capacity = max new_capacity 1;
               temp = ArrayPtr_size dflt new_capacity;
               temp = map_option (std_copy (Get (sv_data v)) 0 (sv_size v) 0) temp
           in v\<lparr>sv_data := temp, sv_capacity := new_capacity\<rparr>)"

definition Resize_A :: "'a \<Rightarrow> nat \<Rightarrow> 'a SimpleVector \<Rightarrow> 'a SimpleVector" where
  "Resize_A dflt new_size v =
     (let v1 = (if new_size > sv_size v \<and> new_size \<le> sv_capacity v
                then v\<lparr>sv_data := map_option (std_fill (sv_size v) new_size dflt) (sv_data v)\<rparr>
                else Reserve_A dflt new_size v)
      in v1\<lparr>sv_size := new_size\<rparr>)"

text \<open>
  When \<open>Reserve\<close> does not return early, \<open>data_.swap(temp)\<close> leaves the old block in
  \<open>temp\<close>, whose destructor deletes it as \<open>Reserve\<close> returns: \<open>Reserve_A_deletes\<close>. A
  reference into the old block dangles from then on.
\<close>

definition Reserve_A_deletes :: "nat \<Rightarrow> 'a SimpleVector \<Rightarrow> bool" where
  "Reserve_A_deletes new_capacity v \<longleftrightarrow> \<not> (sv_capacity v \<noteq> 0 \<and> sv_capacity v \<ge> new_capacity)"

definition PushBack_A ::
  "'a \<Rightarrow> ('a \<Rightarrow> 'a) \<Rightarrow> overload \<Rightarrow> 'a arg \<Rightarrow> 'a SimpleVector \<Rightarrow> error + 'a SimpleVector" where
  "PushBack_A dflt mv ov val v =
     (let full = (sv_size v = sv_capacity v);
          v1 = (if full then Reserve_A dflt (sv_capacity v * 2) v else v);
          deleted = (full \<and> Reserve_A_deletes (sv_capacity v * 2) v)
      in case assign_value ov mv deleted (sv_size v1) val (sv_data v1) of
           Inl e \<Rightarrow> Inl e
         | Inr stored \<Rightarrow> Inr (v1\<lparr>sv_data := stored, sv_size := Suc (sv_size v1)\<rparr>))"

text \<open>
  \<open>Insert\<close> and \<open>Erase\<close> take the iterator \<open>pos = begin() + p\<close> as the index \<open>p\<close> and
  return the vector together with the index their result points at. When
  \<open>begin() + offset\<close> does not lie in the range the algorithm needs
  (\<open>[begin(), end()]\<close> for \<open>Insert\<close>, \<open>[begin(), end())\<close> for \<open>Erase\<close>), the iterator
  range handed to \<open>std::move_backward\<close> or \<open>std::move\<close> is not a range: undefined
  behaviour. \<open>Insert\<close> reads \<open>value\<close> after the shift.
\<close>

definition Insert_A ::
  "'a \<Rightarrow> ('a \<Rightarrow> 'a) \<Rightarrow> overload \<Rightarrow> nat \<Rightarrow> 'a arg \<Rightarrow> 'a SimpleVector
     \<Rightarrow> error + (nat \<times> 'a SimpleVector)" where
  "Insert_A dflt mv ov p val v =
     (let offset = to_int p in
      if offset < 0 \<or> int (sv_size v) < offset then Inl UndefinedBehaviour
      else
        let full = (sv_size v = sv_capacity v);
            v1 = (if full then Reserve_A dflt (sv_capacity v * 2) v else v);
            deleted = (full \<and> Reserve_A_deletes (sv_capacity v * 2) v);
            true_position = nat offset;
            moved = map_option
              (std_move_backward mv true_position (sv_size v1) (sv_size v1 + 1)) (sv_data v1)
        in case assign_value ov mv deleted true_position val moved of
             Inl e \<Rightarrow> Inl e
           | Inr stored \<Rightarrow>
               Inr (true_position, v1\<lparr>sv_data := stored, sv_size := Suc (sv_size v1)\<rparr>))"

definition Erase_A ::
  "('a \<Rightarrow> 'a) \<Rightarrow> nat \<Rightarrow> 'a SimpleVector \<Rightarrow> error + (nat \<times> 'a SimpleVector)" where
  "Erase_A mv p v =
     (let offset = to_int p in
      if offset < 0 \<or> int (sv_size v) \<le> offset then Inl UndefinedBehaviour
      else
        let true_position = nat offset;
            moved = map_option
              (std_move mv (true_position + 1) (sv_size v) true_position) (sv_data v)
        in Inr (true_position, v\<lparr>sv_data := moved, sv_size := sv_size v - 1\<rparr>))"

definition SimpleVector_reserve_A :: "'a \<Rightarrow> nat \<Rightarrow> 'a SimpleVector" where
  \<comment> \<open>\<^verbatim>\<open>SimpleVector(const ReserveProxyObj&)\<close>, \<open>capacity = reserve_obj.value\<close>\<close>
  "SimpleVector_reserve_A dflt capacity =
     (if capacity = 0 then SimpleVector_default
      else Reserve_A dflt capacity SimpleVector_default)"

definition SimpleVector_fill_A :: "'a \<Rightarrow> nat \<Rightarrow> 'a \<Rightarrow> 'a SimpleVector" where
  \<comment> \<open>\<^verbatim>\<open>SimpleVector(size_t size, const Type& value) : SimpleVector(size)\<close>\<close>
  "SimpleVector_fill_A dflt n val =
     (let v = SimpleVector_size dflt n
      in v\<lparr>sv_data := map_option (std_fill 0 (sv_size v) val) (sv_data v)\<rparr>)"

definition SimpleVector_init_A :: "'a \<Rightarrow> 'a list \<Rightarrow> 'a SimpleVector" where
  \<comment> \<open>\<^verbatim>\<open>SimpleVector(std::initializer_list<Type> init) : SimpleVector(init.size())\<close>\<close>
  "SimpleVector_init_A dflt init =
     (let v = SimpleVector_size dflt (length init)
      in v\<lparr>sv_data := map_option (std_copy init 0 (length init) 0) (sv_data v)\<rparr>)"


subsection \<open>SimpleVector, variant B (\<^verbatim>\<open>src/unnamed/part_000\<close>)\<close>

definition Reserve_B :: "'a \<Rightarrow> nat \<Rightarrow> 'a SimpleVector \<Rightarrow> 'a SimpleVector" where
  "Reserve_B dflt new_capacity v =
     (if sv_capacity v \<ge> new_capacity then v
      else let temp = ArrayPtr_size dflt new_capacity;
               temp = map_option (std_copy (Get (sv_data v)) 0 (sv_size v) 0) temp
           in v\<lparr>sv_data := temp, sv_capacity := new_capacity\<rparr>)"

definition Expand_B :: "'a \<Rightarrow> nat \<Rightarrow> 'a SimpleVector \<Rightarrow> 'a SimpleVector" where
  "Expand_B dflt new_capacity v =
     Reserve_B dflt (if new_capacity > 0 then new_capacity else 1) v"

definition Resize_B :: "'a \<Rightarrow> nat \<Rightarrow> 'a SimpleVector \<Rightarrow> 'a SimpleVector" where
  "Resize_B dflt new_size v =
     (if new_size \<le> sv_size v then v\<lparr>sv_size := new_size\<rparr>
      else if new_size \<le> sv_capacity v
      then v\<lparr>sv_data := map_option (std_fill (sv_size v) new_size dflt) (sv_data v),
             sv_size := new_size\<rparr>
      else (Expand_B dflt new_size v)\<lparr>sv_size := new_size\<rparr>)"

definition Reserve_B_deletes :: "nat \<Rightarrow> 'a SimpleVector \<Rightarrow> bool" where
  "Reserve_B_deletes new_capacity v \<longleftrightarrow> \<not> sv_capacity v \<ge> new_capacity"

definition Expand_B_deletes :: "nat \<Rightarrow> 'a SimpleVector \<Rightarrow> bool" where
  "Expand_B_deletes new_capacity v =
     Reserve_B_deletes (if new_capacity > 0 then new_capacity else 1) v"

definition PushBack_B ::
  "'a \<Rightarrow> ('a \<Rightarrow> 'a) \<Rightarrow> overload \<Rightarrow> 'a arg \<Rightarrow> 'a SimpleVector \<Rightarrow> error + 'a SimpleVector" where
  "PushBack_B dflt mv ov val v =
     (let full = (sv_size v = sv_capacity v);
          v1 = (if full then Expand_B dflt (sv_capacity v * 2) v else v);
          deleted = (full \<and> Expand_B_deletes (sv_capacity v * 2) v)
      in case assign_value ov mv deleted (sv_size v1) val (sv_data v1) of
           Inl e \<Rightarrow> Inl e
         | Inr stored \<Rightarrow> Inr (v1\<lparr>sv_data := stored, sv_size := Suc (sv_size v1)\<rparr>))"

definition Insert_B ::
  "'a \<Rightarrow> ('a \<Rightarrow> 'a) \<Rightarrow> overload \<Rightarrow> nat \<Rightarrow> 'a arg \<Rightarrow> 'a SimpleVector
     \<Rightarrow> error + (nat \<times> 'a SimpleVector)" where
  "Insert_B dflt mv ov p val v =
     (let offset = to_int p in
      if offset < 0 \<or> int (sv_size v) < offset then Inl UndefinedBehaviour
      else
        let full = (sv_size v = sv_capacity v);
            v1 = (if full then Expand_B dflt (sv_capacity v * 2) v else v);
            deleted = (full \<and> Expand_B_deletes (sv_capacity v * 2) v);
            true_position = nat offset;
            moved = map_option
              (std_copy_backward_mi mv true_position (sv_size v1) (sv_size v1 + 1)) (sv_data v1)
        in case assign_value ov mv deleted true_position val moved of
             Inl e \<Rightarrow> Inl e
           | Inr stored \<Rightarrow>
               Inr (nat offset, v1\<lparr>sv_data := stored, sv_size := Suc (sv_size v1)\<rparr>))"

definition Erase_B ::
  "('a \<Rightarrow> 'a) \<Rightarrow> nat \<Rightarrow> 'a SimpleVector \<Rightarrow> error + (nat \<times> 'a SimpleVector)" where
  "Erase_B mv p v =
     (let offset = to_int p in
      if offset < 0 \<or> int (sv_size v) \<le> offset then Inl UndefinedBehaviour
      else
        let true_position = nat offset;
            moved = map_option
              (std_copy_mi mv (true_position + 1) (sv_size v) true_position) (sv_data v)
        in Inr (nat offset, v\<lparr>sv_data := moved, sv_size := sv_size v - 1\<rparr>))"

definition SimpleVector_reserve_B :: "'a \<Rightarrow> nat \<Rightarrow> 'a SimpleVector" where
  "SimpleVector_reserve_B dflt capacity =
     (if capacity = 0 then SimpleVector_default
      else Reserve_B dflt capacity SimpleVector_default)"

definition SimpleVector_fill_B :: "'a \<Rightarrow> nat \<Rightarrow> 'a \<Rightarrow> 'a SimpleVector" where
  "SimpleVector_fill_B dflt n val =
     \<lparr>sv_data = ArrayPtr_fill dflt n val, sv_size = n, sv_capacity = n\<rparr>"

definition SimpleVector_init_B :: "'a \<Rightarrow> 'a list \<Rightarrow> 'a SimpleVector" where
  "SimpleVector_init_B dflt init =
     \<lparr>sv_data = ArrayPtr_init dflt init, sv_size = length init, sv_capacity = length init\<rparr>"


subsection \<open>Sequences of calls, run on either variant\<close>

text \<open>
  A caller's program is a list of calls on the objects of a store; \<open>step\<close> performs one
  call with the member functions of the chosen variant and says what the caller sees:
  the value returned, \<open>Cap\<close> for a capacity, \<open>Elems\<close> for what iterating from \<open>begin()\<close>
  to \<open>end()\<close> reads, \<open>Iter\<close> for the index of a returned iterator, \<open>Raised\<close> for an
  exception. \<open>operator[]\<close> with an index that is not below the size is outside the
  contract of the container (slots from \<open>size\<close> on are not elements): \<open>Outside_contract\<close>.
  So is a call of \<open>PushBack\<close> or \<open>Insert\<close> with a reference to such a slot: \<open>designates\<close>
  says that an argument refers to an object outside the block or to an element.
  A run ends at undefined behaviour and at a call outside the contract; after
  \<open>std::out_of_range\<close>, which leaves the vector as it was, it goes on. \<open>lt\<close> is the
  element type's \<open>operator<\<close>.
\<close>

datatype variant = Variant_A | Variant_B

definition Reserve_of :: "variant \<Rightarrow> 'a \<Rightarrow> nat \<Rightarrow> 'a SimpleVector \<Rightarrow> 'a SimpleVector" where
  "Reserve_of var = (case var of Variant_A \<Rightarrow> Reserve_A | Variant_B \<Rightarrow> Reserve_B)"

definition Resize_of :: "variant \<Rightarrow> 'a \<Rightarrow> nat \<Rightarrow> 'a SimpleVector \<Rightarrow> 'a SimpleVector" where
  "Resize_of var = (case var of Variant_A \<Rightarrow> Resize_A | Variant_B \<Rightarrow> Resize_B)"

definition PushBack_of ::
  "variant \<Rightarrow> 'a \<Rightarrow> ('a \<Rightarrow> 'a) \<Rightarrow> overload \<Rightarrow> 'a arg \<Rightarrow> 'a SimpleVector
     \<Rightarrow> error + 'a SimpleVector" where
  "PushBack_of var = (case var of Variant_A \<Rightarrow> PushBack_A | Variant_B \<Rightarrow> PushBack_B)"

definition Insert_of ::
  "variant \<Rightarrow> 'a \<Rightarrow> ('a \<Rightarrow> 'a) \<Rightarrow> overload \<Rightarrow> nat \<Rightarrow> 'a arg \<Rightarrow> 'a SimpleVector
     \<Rightarrow> error + (nat \<times> 'a SimpleVector)" where
  "Insert_of var = (case var of Variant_A \<Rightarrow> Insert_A | Variant_B \<Rightarrow> Insert_B)"

definition Erase_of ::
  "variant \<Rightarrow> ('a \<Rightarrow> 'a) \<Rightarrow> nat \<Rightarrow> 'a SimpleVector \<Rightarrow> error + (nat \<times> 'a SimpleVector)" where
  "Erase_of var = (case var of Variant_A \<Rightarrow> Erase_A | Variant_B \<Rightarrow> Erase_B)"

definition SimpleVector_reserve_of :: "variant \<Rightarrow> 'a \<Rightarrow> nat \<Rightarrow> 'a SimpleVector" where
  "SimpleVector_reserve_of var =
     (case var of Variant_A \<Rightarrow> SimpleVector_reserve_A | Variant_B \<Rightarrow> SimpleVector_reserve_B)"

definition SimpleVector_fill_of :: "variant \<Rightarrow> 'a \<Rightarrow> nat \<Rightarrow> 'a \<Rightarrow> 'a SimpleVector" where
  "SimpleVector_fill_of var =
     (case var of Variant_A \<Rightarrow> SimpleVector_fill_A | Variant_B \<Rightarrow> SimpleVector_fill_B)"

definition SimpleVector_init_of :: "variant \<Rightarrow> 'a \<Rightarrow> 'a list \<Rightarrow> 'a SimpleVector" where
  "SimpleVector_init_of var =
     (case var of Variant_A \<Rightarrow> SimpleVector_init_A | Variant_B \<Rightarrow> SimpleVector_init_B)"

datatype 'a call =
    Construct_default nat
  | Construct_reserve nat nat
  | Construct_size nat nat
  | Construct_fill nat nat 'a
  | Construct_init nat "'a list"
  | Construct_copy nat nat
  | Construct_move nat nat
  | Assign_copy nat nat
  | Assign_move nat nat
  | Call_swap nat nat
  | Call_GetSize nat
  | Call_GetCapacity nat
  | Call_IsEmpty nat
  | Call_index nat nat
  | Call_At nat nat
  | Call_Clear nat
  | Call_Resize nat nat
  | Call_Reserve nat nat
  | Call_PushBack nat overload "'a arg"
  | Call_Insert nat overload nat "'a arg"
  | Call_Erase nat nat
  | Call_PopBack nat
  | Call_elements nat
  | Call_eq nat nat
  | Call_ne nat nat
  | Call_lt nat nat
  | Call_gt nat nat
  | Call_le nat nat
  | Call_ge nat nat

definition designates :: "'a arg \<Rightarrow> 'a SimpleVector \<Rightarrow> bool" where
  "designates a v = (case a of Outside x \<Rightarrow> True | Slot i \<Rightarrow> i < sv_size v)"

datatype 'a seen =
    Done
  | Num nat
  | Cap nat
  | Bool bool
  | Val 'a
  | Iter nat
  | Elems "'a list"
  | Raised error
  | Outside_contract

fun stops :: "'a seen \<Rightarrow> bool" where
  "stops (Raised UndefinedBehaviour) = True"
| "stops Outside_contract = True"
| "stops _ = False"

fun step ::
  "variant \<Rightarrow> 'a \<Rightarrow> ('a \<Rightarrow> 'a) \<Rightarrow> ('a \<Rightarrow> 'a \<Rightarrow> bool) \<Rightarrow> 'a call \<Rightarrow> 'a objects
     \<Rightarrow> 'a seen \<times> 'a objects" where
  "step var dflt mv lt (Construct_default r) s = (Done, s(r := SimpleVector_default))"
| "step var dflt mv lt (Construct_reserve r n) s =
     (Done, s(r := SimpleVector_reserve_of var dflt n))"
| "step var dflt mv lt (Construct_size r n) s = (Done, s(r := SimpleVector_size dflt n))"
| "step var dflt mv lt (Construct_fill r n x) s =
     (Done, s(r := SimpleVector_fill_of var dflt n x))"
| "step var dflt mv lt (Construct_init r xs) s =
     (Done, s(r := SimpleVector_init_of var dflt xs))"
| "step var dflt mv lt (Construct_copy r r') s = (Done, copy_construct dflt r r' s)"
| "step var dflt mv lt (Construct_move r r') s = (Done, move_construct r r' s)"
| "step var dflt mv lt (Assign_copy r r') s = (Done, copy_assign dflt r r' s)"
| "step var dflt mv lt (Assign_move r r') s = (Done, move_assign r r' s)"
| "step var dflt mv lt (Call_swap r r') s = (Done, swap_sv r r' s)"
| "step var dflt mv lt (Call_GetSize r) s = (Num (GetSize (s r)), s)"
| "step var dflt mv lt (Call_GetCapacity r) s = (Cap (GetCapacity (s r)), s)"
| "step var dflt mv lt (Call_IsEmpty r) s = (Bool (IsEmpty (s r)), s)"
| "step var dflt mv lt (Call_index r i) s =
     (if i < sv_size (s r)
      then (case index_op i (s r) of Inl e \<Rightarrow> (Raised e, s) | Inr x \<Rightarrow> (Val x, s))
      else (Outside_contract, s))"
| "step var dflt mv lt (Call_At r i) s =
     (case At i (s r) of Inl e \<Rightarrow> (Raised e, s) | Inr x \<Rightarrow> (Val x, s))"
| "step var dflt mv lt (Call_Clear r) s = (Done, s(r := Clear (s r)))"
| "step var dflt mv lt (Call_Resize r n) s = (Done, s(r := Resize_of var dflt n (s r)))"
| "step var dflt mv lt (Call_Reserve r n) s = (Done, s(r := Reserve_of var dflt n (s r)))"
| "step var dflt mv lt (Call_PushBack r ov a) s =
     (if designates a (s r)
      then (case PushBack_of var dflt mv ov a (s r) of
              Inl e \<Rightarrow> (Raised e, s)
            | Inr w \<Rightarrow> (Done, s(r := w)))
      else (Outside_contract, s))"
| "step var dflt mv lt (Call_Insert r ov p a) s =
     (if designates a (s r)
      then (case Insert_of var dflt mv ov p a (s r) of
              Inl e \<Rightarrow> (Raised e, s)
            | Inr (q, w) \<Rightarrow> (Iter q, s(r := w)))
      else (Outside_contract, s))"
| "step var dflt mv lt (Call_Erase r p) s =
     (case Erase_of var mv p (s r) of
        Inl e \<Rightarrow> (Raised e, s)
      | Inr (q, w) \<Rightarrow> (Iter q, s(r := w)))"
| "step var dflt mv lt (Call_PopBack r) s = (Done, s(r := PopBack (s r)))"
| "step var dflt mv lt (Call_elements r) s = (Elems (live (s r)), s)"
| "step var dflt mv lt (Call_eq r r') s = (Bool (eq_op (s r) (s r')), s)"
| "step var dflt mv lt (Call_ne r r') s = (Bool (ne_op (s r) (s r')), s)"
| "step var dflt mv lt (Call_lt r r') s = (Bool (lt_op lt (s r) (s r')), s)"
| "step var dflt mv lt (Call_gt r r') s = (Bool (gt_op lt (s r) (s r')), s)"
| "step var dflt mv lt (Call_le r r') s = (Bool (le_op lt (s r) (s r')), s)"
| "step var dflt mv lt (Call_ge r r') s = (Bool (ge_op lt (s r) (s r')), s)"

fun run ::
  "variant \<Rightarrow> 'a \<Rightarrow> ('a \<Rightarrow> 'a) \<Rightarrow> ('a \<Rightarrow> 'a \<Rightarrow> bool) \<Rightarrow> 'a call list \<Rightarrow> 'a objects
     \<Rightarrow> 'a seen list" where
  "run var dflt mv lt [] s = []"
| "run var dflt mv lt (c # cs) s =
     (case step var dflt mv lt c s of
        (ob, s') \<Rightarrow> if stops ob then [ob] else ob # run var dflt mv lt cs s')"

definition no_objects :: "'a objects" where
  "no_objects = (\<lambda>r. SimpleVector_default)"

text \<open>
  What two runs may differ in: nothing but a capacity, which variant A may report as 1
  where variant B reports 0. \<open>rel\<close> is the relation between the two variants' vectors
  that every call keeps.
\<close>

fun agree :: "'a seen \<Rightarrow> 'a seen \<Rightarrow> bool" where
  "agree (Cap a) (Cap b) = (a = b \<or> (a = 1 \<and> b = 0))"
| "agree x y = (x = y)"

definition rel :: "'a SimpleVector \<Rightarrow> 'a SimpleVector \<Rightarrow> bool" where
  "rel a b \<longleftrightarrow>
     valid a \<and> valid b \<and> sv_size a = sv_size b \<and> live a = live b \<and>
     (sv_capacity a = sv_capacity b \<or>
      (sv_size a = 0 \<and> sv_capacity a = 1 \<and> sv_capacity b = 0))"

definition rel_objects :: "'a objects \<Rightarrow> 'a objects \<Rightarrow> bool" where
  "rel_objects sa sb \<longleftrightarrow> (\<forall>r. rel (sa r) (sb r))"

definition converge :: "int call list" where
  "converge = [Call_Reserve 0 0, Call_GetCapacity 0, Call_PushBack 0 Moving (Outside 7),
     Call_GetCapacity 0, Call_elements 0]"

text \<open>
  \<^verbatim>\<open>SimpleVector<int> v(Reserve(2)); v.PushBack(7); v.PushBack(v[0]); v.PushBack(v[1]);\<close>
  with the elements read in between: the second \<open>PushBack\<close> has room, the third has not.
\<close>

definition aliased :: "int call list" where
  "aliased = [Construct_reserve 0 2, Call_PushBack 0 Moving (Outside 7),
     Call_PushBack 0 Copying (Slot 0), Call_elements 0, Call_PushBack 0 Copying (Slot 1),
     Call_elements 0]"


subsection \<open>Programs and sample vectors the statements below refer to\<close>

text \<open>
  Repeated \<open>PushBack\<close>, one call per element of \<open>xs\<close>, each with an object outside the
  block.
\<close>

fun PushBack_all_A ::
  "'a \<Rightarrow> ('a \<Rightarrow> 'a) \<Rightarrow> overload \<Rightarrow> 'a list \<Rightarrow> 'a SimpleVector \<Rightarrow> error + 'a SimpleVector" where
  "PushBack_all_A dflt mv ov [] v = Inr v"
| "PushBack_all_A dflt mv ov (x # xs) v =
     (case PushBack_A dflt mv ov (Outside x) v of
        Inl e \<Rightarrow> Inl e
      | Inr w \<Rightarrow> PushBack_all_A dflt mv ov xs w)"

fun PushBack_all_B ::
  "'a \<Rightarrow> ('a \<Rightarrow> 'a) \<Rightarrow> overload \<Rightarrow> 'a list \<Rightarrow> 'a SimpleVector \<Rightarrow> error + 'a SimpleVector" where
  "PushBack_all_B dflt mv ov [] v = Inr v"
| "PushBack_all_B dflt mv ov (x # xs) v =
     (case PushBack_B dflt mv ov (Outside x) v of
        Inl e \<Rightarrow> Inl e
      | Inr w \<Rightarrow> PushBack_all_B dflt mv ov xs w)"

text \<open>
  The program \<^verbatim>\<open>v.Erase(v.Insert(pos, val))\<close>: \<open>Erase\<close> gets the iterator that \<open>Insert\<close>
  returns.
\<close>

definition Insert_then_Erase_A ::
  "'a \<Rightarrow> ('a \<Rightarrow> 'a) \<Rightarrow> overload \<Rightarrow> nat \<Rightarrow> 'a arg \<Rightarrow> 'a SimpleVector
     \<Rightarrow> error + (nat \<times> 'a SimpleVector)" where
  "Insert_then_Erase_A dflt mv ov p val v =
     (case Insert_A dflt mv ov p val v of
        Inl e \<Rightarrow> Inl e
      | Inr (q, w) \<Rightarrow> Erase_A mv q w)"

definition Insert_then_Erase_B ::
  "'a \<Rightarrow> ('a \<Rightarrow> 'a) \<Rightarrow> overload \<Rightarrow> nat \<Rightarrow> 'a arg \<Rightarrow> 'a SimpleVector
     \<Rightarrow> error + (nat \<times> 'a SimpleVector)" where
  "Insert_then_Erase_B dflt mv ov p val v =
     (case Insert_B dflt mv ov p val v of
        Inl e \<Rightarrow> Inl e
      | Inr (q, w) \<Rightarrow> Erase_B mv q w)"

text \<open>\<^verbatim>\<open>SimpleVector<char>(size_t(1) << 31)\<close>: 2 GiB of value-initialised \<open>char\<close>.\<close>

definition big :: "char SimpleVector" where
  "big = SimpleVector_size (CHR 0x00) (2 ^ 31)"

text \<open>\<^verbatim>\<open>SimpleVector<char>(size_t(1) << 32)\<close>: 4 GiB.\<close>

definition bigger :: "char SimpleVector" where
  "bigger = SimpleVector_size (CHR 0x00) (2 ^ 32)"

text \<open>Every object of the store satisfies the class invariant.\<close>

definition all_valid :: "'a objects \<Rightarrow> bool" where
  "all_valid s \<longleftrightarrow> (\<forall>r. valid (s r))"

text \<open>
  \<open>pow2_cap n c\<close>: \<open>c\<close> is what the capacity sequence 0, 1, 2, 4, 8, ... has reached when
  it first holds \<open>n\<close> elements: 0 for \<open>n = 0\<close>, else the least power of two that is at
  least \<open>n\<close>.
\<close>

definition pow2_cap :: "nat \<Rightarrow> nat \<Rightarrow> bool" where
  "pow2_cap n c \<longleftrightarrow> (if n = 0 then c = 0 else \<exists>k. c = 2 ^ k \<and> n \<le> c \<and> c < 2 * n)"

definition v123 :: "int SimpleVector" where
  "v123 = \<lparr>sv_data = Some [1, 2, 3, 0], sv_size = 3, sv_capacity = 4\<rparr>"

text \<open>\<^verbatim>\<open>SimpleVector<int> v{1, 2, 3, 4}\<close>: size and capacity 4.\<close>

definition v1234 :: "int SimpleVector" where
  "v1234 = SimpleVector_init_A 0 [1, 2, 3, 4]"

text \<open>A store with the vectors \<open>[1, 2, 3]\<close> (capacity 4) at 0 and \<open>[5, 5]\<close> at 1.\<close>

definition two_objects :: "int objects" where
  "two_objects = (\<lambda>r. SimpleVector_default)(0 := v123, 1 := SimpleVector_fill_B 0 2 5)"

text \<open>A heap with the vector \<open>[1, 2, 3]\<close> (capacity 4) at 0, its block at address 0.\<close>

definition one_block :: "int heap" where
  "one_block =
     \<lparr>blocks = (\<lambda>a. None)(0 := Some [1, 2, 3, 0]),
      fresh = 1,
      vecs = (\<lambda>r. \<lparr>at_data = None, at_size = 0, at_capacity = 0\<rparr>)
               (0 := \<lparr>at_data = Some 0, at_size = 3, at_capacity = 4\<rparr>)\<rparr>"


section \<open>The loops in closed form\<close>

lemma length_std_fill [simp]: "length (std_fill first last' v xs) = length xs"
  by (induction first last' v xs rule: std_fill.induct) (subst std_fill.simps, simp)

lemma nth_std_fill:
  "last' \<le> length xs \<Longrightarrow> i < length xs \<Longrightarrow>
   std_fill first last' v xs ! i = (if first \<le> i \<and> i < last' then v else xs ! i)"
proof (induction first last' v xs rule: std_fill.induct)
  case (1 first last' v xs)
  show ?case
  proof (cases "first < last'")
    case True
    with 1 show ?thesis
      by (subst std_fill.simps) (auto simp: nth_list_update)
  next
    case False
    then show ?thesis by (subst std_fill.simps) auto
  qed
qed

lemma length_std_copy [simp]: "length (std_copy src first last' d_first dst) = length dst"
  by (induction src first last' d_first dst rule: std_copy.induct) (subst std_copy.simps, simp)

lemma nth_std_copy:
  "d_first = first \<Longrightarrow> last' \<le> length dst \<Longrightarrow> i < length dst \<Longrightarrow>
   std_copy src first last' d_first dst ! i =
     (if first \<le> i \<and> i < last' then src ! i else dst ! i)"
proof (induction src first last' d_first dst rule: std_copy.induct)
  case (1 src first last' d_first dst)
  show ?case
  proof (cases "first < last'")
    case True
    with 1 show ?thesis
      by (subst std_copy.simps) (auto simp: nth_list_update)
  next
    case False
    then show ?thesis by (subst std_copy.simps) auto
  qed
qed

lemma length_std_move [simp]: "length (std_move mv first last' d_first xs) = length xs"
  by (induction mv first last' d_first xs rule: std_move.induct) (subst std_move.simps, simp)

lemma nth_std_move:
  "first = Suc d \<Longrightarrow> last' \<le> length xs \<Longrightarrow> i < length xs \<Longrightarrow>
   std_move mv first last' d xs ! i =
     (if d \<le> i \<and> Suc i < last' then xs ! Suc i
      else if first < last' \<and> Suc i = last' then mv (xs ! i)
      else xs ! i)"
proof (induction mv first last' d xs arbitrary: i rule: std_move.induct)
  case (1 mv first last' d xs)
  show ?case
  proof (cases "first < last'")
    case True
    with 1 show ?thesis
      by (subst std_move.simps) (auto simp: nth_list_update)
  next
    case False
    with 1 show ?thesis by (subst std_move.simps) auto
  qed
qed

lemma length_std_move_backward [simp]:
  "length (std_move_backward mv first last' d_last xs) = length xs"
  by (induction mv first last' d_last xs rule: std_move_backward.induct)
     (subst std_move_backward.simps, simp)

lemma std_move_backward_step:
  "first < Suc l \<Longrightarrow>
   std_move_backward mv first (Suc l) (Suc (Suc l)) xs =
   std_move_backward mv first l (Suc l) (xs[Suc l := xs ! l, l := mv (xs ! l)])"
  by (subst std_move_backward.simps) simp

lemma std_move_backward_stop:
  "\<not> first < last' \<Longrightarrow> std_move_backward mv first last' d_last xs = xs"
  by (subst std_move_backward.simps) simp

lemma nth_std_move_backward_Suc:
  "l < length xs \<Longrightarrow> i < length xs \<Longrightarrow>
   std_move_backward mv first l (Suc l) xs ! i =
     (if first < i \<and> i \<le> l then xs ! (i - 1)
      else if first < l \<and> i = first then mv (xs ! i)
      else xs ! i)"
proof (induction l arbitrary: xs)
  case 0
  then show ?case by (auto simp: std_move_backward_stop)
next
  case (Suc l)
  show ?case
  proof (cases "first < Suc l")
    case False
    then show ?thesis by (auto simp: std_move_backward_stop)
  next
    case True
    let ?ys = "xs[Suc l := xs ! l, l := mv (xs ! l)]"
    have len: "l < length ?ys" "i < length ?ys" using Suc.prems by simp_all
    have step: "std_move_backward mv first (Suc l) (Suc (Suc l)) xs ! i =
        (if first < i \<and> i \<le> l then ?ys ! (i - 1)
         else if first < l \<and> i = first then mv (?ys ! i)
         else ?ys ! i)"
      using Suc.IH [OF len] True by (simp only: std_move_backward_step)
    consider "i < l" | "i = l" | "i = Suc l" | "Suc l < i" by linarith
    then show ?thesis
    proof cases
      case 1
      then have "?ys ! i = xs ! i" "?ys ! (i - 1) = xs ! (i - 1)" by simp_all
      with 1 True show ?thesis unfolding step by auto
    next
      case 2
      then have "?ys ! i = mv (xs ! l)" using Suc.prems by simp
      moreover have "0 < l \<Longrightarrow> ?ys ! (l - 1) = xs ! (l - 1)" by simp
      ultimately show ?thesis using 2 True unfolding step by auto
    next
      case 3
      then have "?ys ! i = xs ! l" using Suc.prems by simp
      with 3 True show ?thesis unfolding step by auto
    next
      case 4
      then have "?ys ! i = xs ! i" by simp
      with 4 True show ?thesis unfolding step by auto
    qed
  qed
qed

lemma std_copy_mi_eq: "std_copy_mi mv first last' d xs = std_move mv first last' d xs"
  by (induction mv first last' d xs rule: std_move.induct)
     (subst std_move.simps, subst std_copy_mi.simps, simp)

lemma std_copy_backward_mi_eq:
  "std_copy_backward_mi mv first last' d xs = std_move_backward mv first last' d xs"
  by (induction mv first last' d xs rule: std_move_backward.induct)
     (subst std_move_backward.simps, subst std_copy_backward_mi.simps, simp)

lemma length_init_loop [simp]: "length (init_loop init c xs) = length xs"
  by (induction init c xs rule: init_loop.induct) auto

lemma nth_init_loop:
  "c + length init \<le> length xs \<Longrightarrow> i < length xs \<Longrightarrow>
   init_loop init c xs ! i = (if c \<le> i \<and> i < c + length init then init ! (i - c) else xs ! i)"
  by (induction init c xs arbitrary: i rule: init_loop.induct) (auto simp: nth_list_update nth_Cons')

lemma to_int_small: "p < 2 ^ 31 \<Longrightarrow> to_int p = int p"
  by (simp add: to_int_def)


section \<open>Reallocation, and the store at slot \<open>size\<close>\<close>

lemma Get_simps [simp]: "Get None = []" "Get (Some xs) = xs"
  by (simp_all add: Get_def)

lemma Get_ArrayPtr_size [simp]: "Get (ArrayPtr_size dflt n) = replicate n dflt"
  by (simp add: ArrayPtr_size_def)

lemma length_Get_map_option:
  "(\<And>xs. length (f xs) = length xs) \<Longrightarrow> length (Get (map_option f p)) = length (Get p)"
  by (cases p) simp_all

lemma length_Get_copied [simp]:
  "length (Get (map_option (std_copy src 0 m 0) (ArrayPtr_size dflt n))) = n"
  by (simp add: length_Get_map_option)

lemma take_Get_copied:
  assumes "m \<le> length src" "m \<le> n"
  shows "take m (Get (map_option (std_copy src 0 m 0) (ArrayPtr_size dflt n))) = take m src"
proof (cases "n = 0")
  case True
  with assms show ?thesis by simp
next
  case False
  then have "Get (map_option (std_copy src 0 m 0) (ArrayPtr_size dflt n))
      = std_copy src 0 m 0 (replicate n dflt)"
    by (simp add: ArrayPtr_size_def)
  moreover have "take m (std_copy src 0 m 0 (replicate n dflt)) = take m src"
    using assms by (intro nth_equalityI) (simp_all add: nth_std_copy)
  ultimately show ?thesis by simp
qed

lemma Reserve_A_noop: "sv_capacity v \<noteq> 0 \<Longrightarrow> n \<le> sv_capacity v \<Longrightarrow> Reserve_A dflt n v = v"
  by (simp add: Reserve_A_def)

lemma Reserve_A_grow:
  "sv_capacity v = 0 \<or> sv_capacity v < n \<Longrightarrow>
   Reserve_A dflt n v =
     v\<lparr>sv_data := map_option (std_copy (Get (sv_data v)) 0 (sv_size v) 0)
                     (ArrayPtr_size dflt (max n 1)),
       sv_capacity := max n 1\<rparr>"
  by (auto simp: Reserve_A_def Let_def)

lemma Reserve_B_noop: "n \<le> sv_capacity v \<Longrightarrow> Reserve_B dflt n v = v"
  by (simp add: Reserve_B_def)

lemma Reserve_B_grow:
  "sv_capacity v < n \<Longrightarrow>
   Reserve_B dflt n v =
     v\<lparr>sv_data := map_option (std_copy (Get (sv_data v)) 0 (sv_size v) 0)
                     (ArrayPtr_size dflt n),
       sv_capacity := n\<rparr>"
  by (auto simp: Reserve_B_def Let_def)

lemma Reserve_A_props:
  assumes "valid v"
  shows "sv_size (Reserve_A dflt n v) = sv_size v
    \<and> sv_capacity v \<le> sv_capacity (Reserve_A dflt n v)
    \<and> n \<le> sv_capacity (Reserve_A dflt n v)
    \<and> live (Reserve_A dflt n v) = live v
    \<and> valid (Reserve_A dflt n v)"
proof -
  consider "sv_capacity v \<noteq> 0 \<and> n \<le> sv_capacity v" | "sv_capacity v = 0 \<or> sv_capacity v < n"
    by linarith
  then show ?thesis
  proof cases
    case 1
    with assms show ?thesis by (simp add: Reserve_A_noop)
  next
    case 2
    have le: "sv_size v \<le> max n 1" "sv_size v \<le> length (Get (sv_data v))"
      using assms 2 by (auto simp: valid_def)
    show ?thesis
      using assms 2 le take_Get_copied [OF le(2) le(1), of dflt]
      unfolding Reserve_A_grow [OF 2] by (auto simp: valid_def live_def)
  qed
qed

lemma Reserve_B_props:
  assumes "valid v"
  shows "sv_size (Reserve_B dflt n v) = sv_size v
    \<and> sv_capacity v \<le> sv_capacity (Reserve_B dflt n v)
    \<and> n \<le> sv_capacity (Reserve_B dflt n v)
    \<and> live (Reserve_B dflt n v) = live v
    \<and> valid (Reserve_B dflt n v)"
proof (cases "n \<le> sv_capacity v")
  case True
  with assms show ?thesis by (simp add: Reserve_B_noop)
next
  case False
  then have 2: "sv_capacity v < n" by simp
  have le: "sv_size v \<le> n" "sv_size v \<le> length (Get (sv_data v))"
    using assms 2 by (auto simp: valid_def)
  show ?thesis
    using assms 2 le take_Get_copied [OF le(2) le(1), of dflt]
    unfolding Reserve_B_grow [OF 2] by (auto simp: valid_def live_def)
qed

lemma Reserve_A_exact:
  "sv_capacity v = 0 \<or> sv_capacity v < n \<Longrightarrow>
   sv_capacity (Reserve_A dflt n v) = max n 1 \<and>
   length (Get (sv_data (Reserve_A dflt n v))) = max n 1"
  by (simp add: Reserve_A_grow)

lemma Reserve_B_exact:
  "sv_capacity v < n \<Longrightarrow>
   sv_capacity (Reserve_B dflt n v) = n \<and> length (Get (sv_data (Reserve_B dflt n v))) = n"
  by (simp add: Reserve_B_grow)

lemma std_copy_Nil [simp]: "std_copy src 0 0 0 dst = dst"
  by (subst std_copy.simps) simp

lemma Get_ArrayPtr_assign [simp]: "Get (ArrayPtr_assign i x p) = (Get p)[i := x]"
  by (cases p) (simp_all add: ArrayPtr_assign_def)

lemma Expand_B_eq: "Expand_B dflt n v = Reserve_B dflt (max n 1) v"
  by (auto simp: Expand_B_def max_def intro: arg_cong [where f = "\<lambda>n. Reserve_B dflt n v"])

text \<open>The assignment from \<open>value\<close>, case by case.\<close>

lemma assign_value_Outside [simp]:
  "assign_value ov mv deleted idx (Outside x) p = Inr (ArrayPtr_assign idx x p)"
  by (simp add: assign_value_def)

lemma assign_value_deleted [simp]:
  "assign_value ov mv True idx (Slot i) p = Inl UndefinedBehaviour"
  by (simp add: assign_value_def)

lemma assign_value_Slot:
  "i < length (Get p) \<Longrightarrow>
   assign_value ov mv False idx (Slot i) p =
     Inr (case ov of
            Copying \<Rightarrow> ArrayPtr_assign idx (Get p ! i) p
          | Moving \<Rightarrow> ArrayPtr_assign i (mv (Get p ! i)) (ArrayPtr_assign idx (Get p ! i) p))"
  by (cases ov) (simp_all add: assign_value_def)

lemma assign_value_length:
  "assign_value ov mv deleted idx a p = Inr q \<Longrightarrow> length (Get q) = length (Get p)"
  by (cases a; cases ov) (auto simp: assign_value_def split: if_splits)

lemma Reserve_A_deletes_full [simp]: "Reserve_A_deletes (sv_capacity v * 2) v"
  by (auto simp: Reserve_A_deletes_def)

lemma Expand_B_deletes_full [simp]: "Expand_B_deletes (sv_capacity v * 2) v"
  by (auto simp: Expand_B_deletes_def Reserve_B_deletes_def)

lemma Reserve_A_kept: "\<not> Reserve_A_deletes n v \<Longrightarrow> Reserve_A dflt n v = v"
  by (simp add: Reserve_A_deletes_def Reserve_A_def)

lemma Reserve_B_kept: "\<not> Reserve_B_deletes n v \<Longrightarrow> Reserve_B dflt n v = v"
  by (simp add: Reserve_B_deletes_def Reserve_B_def)

lemma Reserve_A_replaced:
  "Reserve_A_deletes n v \<Longrightarrow>
   Reserve_A dflt n v =
     v\<lparr>sv_data := map_option (std_copy (Get (sv_data v)) 0 (sv_size v) 0)
                     (ArrayPtr_size dflt (max n 1)),
       sv_capacity := max n 1\<rparr>"
  by (rule Reserve_A_grow) (auto simp: Reserve_A_deletes_def)

lemma Reserve_B_replaced:
  "Reserve_B_deletes n v \<Longrightarrow>
   Reserve_B dflt n v =
     v\<lparr>sv_data := map_option (std_copy (Get (sv_data v)) 0 (sv_size v) 0)
                     (ArrayPtr_size dflt n),
       sv_capacity := n\<rparr>"
  by (rule Reserve_B_grow) (auto simp: Reserve_B_deletes_def)

lemma Expand_B_deletes_iff: "Expand_B_deletes n v \<longleftrightarrow> Reserve_B_deletes (max n 1) v"
  by (auto simp: Expand_B_deletes_def Reserve_B_deletes_def max_def)

text \<open>Storing at slot \<open>size_\<close> and counting it in.\<close>

lemma store_back:
  assumes "valid w" "sv_size w < sv_capacity w"
  shows "live (w\<lparr>sv_data := ArrayPtr_assign (sv_size w) x (sv_data w), sv_size := Suc (sv_size w)\<rparr>)
           = live w @ [x]"
    and "valid (w\<lparr>sv_data := ArrayPtr_assign (sv_size w) x (sv_data w), sv_size := Suc (sv_size w)\<rparr>)"
  using assms by (simp_all add: live_def valid_def take_Suc_conv_app_nth)

lemma store_back_slot:
  assumes "valid w" "sv_size w < sv_capacity w" "i < sv_size w"
  shows "\<exists>d. assign_value ov mv False (sv_size w) (Slot i) (sv_data w) = Inr d
     \<and> live (w\<lparr>sv_data := d, sv_size := Suc (sv_size w)\<rparr>)
         = (case ov of Copying \<Rightarrow> live w | Moving \<Rightarrow> (live w)[i := mv (live w ! i)])
           @ [live w ! i]
     \<and> valid (w\<lparr>sv_data := d, sv_size := Suc (sv_size w)\<rparr>)"
proof -
  from assms(1,2) obtain ys where ys: "sv_data w = Some ys" "length ys = sv_capacity w"
    by (cases "sv_data w") (auto simp: valid_def)
  define n where "n = sv_size w"
  have n: "n < length ys" "i < n" "i < length ys" using assms ys by (simp_all add: n_def)
  have c: "take (Suc n) (ys[n := ys ! i]) = take n ys @ [ys ! i]"
    using n by (simp add: take_Suc_conv_app_nth)
  have m: "take (Suc n) (ys[n := ys ! i, i := mv (ys ! i)])
      = (take n ys)[i := mv (ys ! i)] @ [ys ! i]"
    using n c by (simp add: take_update_swap list_update_append1)
  show ?thesis
  proof (cases ov)
    case Copying
    then show ?thesis
      using ys n c assign_value_Slot [of i "sv_data w" ov mv "sv_size w"]
      by (simp add: live_def valid_def ArrayPtr_assign_def n_def)
  next
    case Moving
    then show ?thesis
      using ys n m assign_value_Slot [of i "sv_data w" ov mv "sv_size w"]
      by (simp add: live_def valid_def ArrayPtr_assign_def n_def)
  qed
qed

lemma PushBack_A_Outside:
  "PushBack_A dflt mv ov (Outside x) v =
     Inr (let v1 = (if sv_size v = sv_capacity v then Reserve_A dflt (sv_capacity v * 2) v else v)
          in v1\<lparr>sv_data := ArrayPtr_assign (sv_size v1) x (sv_data v1),
                 sv_size := Suc (sv_size v1)\<rparr>)"
  by (simp add: PushBack_A_def Let_def)

lemma PushBack_B_Outside:
  "PushBack_B dflt mv ov (Outside x) v =
     Inr (let v1 = (if sv_size v = sv_capacity v then Expand_B dflt (sv_capacity v * 2) v else v)
          in v1\<lparr>sv_data := ArrayPtr_assign (sv_size v1) x (sv_data v1),
                 sv_size := Suc (sv_size v1)\<rparr>)"
  by (simp add: PushBack_B_def Let_def)

lemma PushBack_A_full:
  assumes "valid v" "sv_size v = sv_capacity v"
  shows "\<exists>w. PushBack_A dflt mv ov (Outside x) v = Inr w
    \<and> sv_capacity w = max 1 (sv_capacity v * 2)
    \<and> sv_size w = Suc (sv_size v)
    \<and> live w = live v @ [x]
    \<and> valid w"
proof -
  let ?w = "Reserve_A dflt (sv_capacity v * 2) v"
  have g: "sv_capacity v = 0 \<or> sv_capacity v < sv_capacity v * 2" by auto
  have w: "valid ?w" "sv_size ?w = sv_size v" "live ?w = live v"
    using Reserve_A_props [OF assms(1), of dflt "sv_capacity v * 2"] by simp_all
  have c: "sv_capacity ?w = max 1 (sv_capacity v * 2)"
    using Reserve_A_exact [OF g, of dflt] by (simp add: max.commute)
  have lt: "sv_size ?w < sv_capacity ?w" using assms(2) w(2) c by (auto simp: max_def)
  have p: "PushBack_A dflt mv ov (Outside x) v
      = Inr (?w\<lparr>sv_data := ArrayPtr_assign (sv_size ?w) x (sv_data ?w), sv_size := Suc (sv_size ?w)\<rparr>)"
    using assms(2) by (simp add: PushBack_A_Outside Let_def)
  show ?thesis
    unfolding p using store_back [OF w(1) lt, of x] w c by simp
qed

lemma PushBack_A_room:
  assumes "valid v" "sv_size v \<noteq> sv_capacity v"
  shows "\<exists>w. PushBack_A dflt mv ov (Outside x) v = Inr w
    \<and> w = v\<lparr>sv_data := ArrayPtr_assign (sv_size v) x (sv_data v), sv_size := Suc (sv_size v)\<rparr>
    \<and> sv_capacity w = sv_capacity v
    \<and> sv_size w = Suc (sv_size v)
    \<and> live w = live v @ [x]
    \<and> valid w"
proof -
  have lt: "sv_size v < sv_capacity v" using assms by (simp add: valid_def)
  have p: "PushBack_A dflt mv ov (Outside x) v
      = Inr (v\<lparr>sv_data := ArrayPtr_assign (sv_size v) x (sv_data v), sv_size := Suc (sv_size v)\<rparr>)"
    using assms(2) by (simp add: PushBack_A_Outside Let_def)
  show ?thesis
    using store_back [OF assms(1) lt, of x] by (simp add: p)
qed

lemma PushBack_B_full:
  assumes "valid v" "sv_size v = sv_capacity v"
  shows "\<exists>w. PushBack_B dflt mv ov (Outside x) v = Inr w
    \<and> sv_capacity w = max 1 (sv_capacity v * 2)
    \<and> sv_size w = Suc (sv_size v)
    \<and> live w = live v @ [x]
    \<and> valid w"
proof -
  let ?n = "max (sv_capacity v * 2) 1"
  let ?w = "Reserve_B dflt ?n v"
  have g: "sv_capacity v < ?n" by (simp add: max_def)
  have w: "valid ?w" "sv_size ?w = sv_size v" "live ?w = live v"
    using Reserve_B_props [OF assms(1), of dflt ?n] by simp_all
  have c: "sv_capacity ?w = max 1 (sv_capacity v * 2)"
    using Reserve_B_exact [OF g, of dflt] by (simp add: max.commute)
  have lt: "sv_size ?w < sv_capacity ?w" using assms(2) w(2) c by (auto simp: max_def)
  have p: "PushBack_B dflt mv ov (Outside x) v
      = Inr (?w\<lparr>sv_data := ArrayPtr_assign (sv_size ?w) x (sv_data ?w), sv_size := Suc (sv_size ?w)\<rparr>)"
    using assms(2) by (simp add: PushBack_B_Outside Let_def Expand_B_eq)
  show ?thesis
    unfolding p using store_back [OF w(1) lt, of x] w c by simp
qed

lemma PushBack_B_room_eq:
  "sv_size v \<noteq> sv_capacity v \<Longrightarrow> PushBack_B dflt mv ov a v = PushBack_A dflt mv ov a v"
  by (simp add: PushBack_B_def PushBack_A_def)

lemma PushBack_B_room:
  assumes "valid v" "sv_size v \<noteq> sv_capacity v"
  shows "\<exists>w. PushBack_B dflt mv ov (Outside x) v = Inr w
    \<and> w = v\<lparr>sv_data := ArrayPtr_assign (sv_size v) x (sv_data v), sv_size := Suc (sv_size v)\<rparr>
    \<and> sv_capacity w = sv_capacity v
    \<and> sv_size w = Suc (sv_size v)
    \<and> live w = live v @ [x]
    \<and> valid w"
  using PushBack_A_room [OF assms] by (simp add: PushBack_B_room_eq [OF assms(2)])

lemma PushBack_A_props:
  assumes "valid v"
  shows "\<exists>w. PushBack_A dflt mv ov (Outside x) v = Inr w
    \<and> sv_size w = Suc (sv_size v)
    \<and> live w = live v @ [x]
    \<and> valid w
    \<and> sv_capacity w
          = (if sv_size v = sv_capacity v then max 1 (sv_capacity v * 2) else sv_capacity v)"
proof (cases "sv_size v = sv_capacity v")
  case True
  from PushBack_A_full [OF assms True, of dflt mv ov x] True show ?thesis by auto
next
  case False
  from PushBack_A_room [OF assms False, of dflt mv ov x] False show ?thesis by auto
qed

lemma PushBack_B_props:
  assumes "valid v"
  shows "\<exists>w. PushBack_B dflt mv ov (Outside x) v = Inr w
    \<and> sv_size w = Suc (sv_size v)
    \<and> live w = live v @ [x]
    \<and> valid w
    \<and> sv_capacity w
          = (if sv_size v = sv_capacity v then max 1 (sv_capacity v * 2) else sv_capacity v)"
proof (cases "sv_size v = sv_capacity v")
  case True
  from PushBack_B_full [OF assms True, of dflt mv ov x] True show ?thesis by auto
next
  case False
  from PushBack_B_room [OF assms False, of dflt mv ov x] False show ?thesis by auto
qed

text \<open>
  \<open>PushBack\<close> with a reference to an element of the vector itself: at full capacity the
  block the reference points into is deleted before it is read; with room the element
  is read from the block in place.
\<close>

lemma PushBack_A_slot_full:
  "sv_size v = sv_capacity v \<Longrightarrow> PushBack_A dflt mv ov (Slot i) v = Inl UndefinedBehaviour"
  by (simp add: PushBack_A_def Let_def)

lemma PushBack_B_slot_full:
  "sv_size v = sv_capacity v \<Longrightarrow> PushBack_B dflt mv ov (Slot i) v = Inl UndefinedBehaviour"
  by (simp add: PushBack_B_def Let_def)

lemma PushBack_A_slot_room:
  assumes "valid v" "sv_size v \<noteq> sv_capacity v" "i < sv_size v"
  shows "\<exists>w. PushBack_A dflt mv ov (Slot i) v = Inr w
    \<and> sv_capacity w = sv_capacity v
    \<and> sv_size w = Suc (sv_size v)
    \<and> live w = (case ov of Copying \<Rightarrow> live v | Moving \<Rightarrow> (live v)[i := mv (live v ! i)])
               @ [live v ! i]
    \<and> valid w"
proof -
  have lt: "sv_size v < sv_capacity v" using assms by (simp add: valid_def)
  from store_back_slot [OF assms(1) lt assms(3), of ov mv] obtain d where
    d: "assign_value ov mv False (sv_size v) (Slot i) (sv_data v) = Inr d"
      "live (v\<lparr>sv_data := d, sv_size := Suc (sv_size v)\<rparr>)
         = (case ov of Copying \<Rightarrow> live v | Moving \<Rightarrow> (live v)[i := mv (live v ! i)])
           @ [live v ! i]"
      "valid (v\<lparr>sv_data := d, sv_size := Suc (sv_size v)\<rparr>)" by blast
  have "PushBack_A dflt mv ov (Slot i) v = Inr (v\<lparr>sv_data := d, sv_size := Suc (sv_size v)\<rparr>)"
    using assms(2) d(1) by (simp add: PushBack_A_def Let_def)
  with d(2,3) show ?thesis by simp
qed

lemma pow2_cap_step:
  assumes "pow2_cap n c" "n \<le> c"
  shows "pow2_cap (Suc n) (if n = c then max 1 (c * 2) else c)"
proof (cases "n = 0")
  case True
  with assms have "c = 0" by (simp add: pow2_cap_def)
  with True show ?thesis
    unfolding pow2_cap_def by (auto intro: exI [of _ 0])
next
  case False
  with assms obtain k where k: "c = 2 ^ k" "n \<le> c" "c < 2 * n"
    by (auto simp: pow2_cap_def)
  show ?thesis
  proof (cases "n = c")
    case True
    with k False show ?thesis
      unfolding pow2_cap_def by (auto intro!: exI [of _ "Suc k"] simp: max_def)
  next
    case False
    with k show ?thesis
      unfolding pow2_cap_def by (auto intro!: exI [of _ k])
  qed
qed

lemma valid_default [simp]: "valid SimpleVector_default"
  by (simp add: valid_def SimpleVector_default_def)

lemma live_default [simp]: "live SimpleVector_default = []"
  by (simp add: live_def SimpleVector_default_def)

lemma PushBack_all_A_from:
  assumes "valid v" "pow2_cap (sv_size v) (sv_capacity v)"
  shows "\<exists>w. PushBack_all_A dflt mv ov xs v = Inr w
     \<and> valid w
     \<and> sv_size w = sv_size v + length xs
     \<and> live w = live v @ xs
     \<and> pow2_cap (sv_size w) (sv_capacity w)"
  using assms
proof (induction xs arbitrary: v)
  case Nil
  then show ?case by simp
next
  case (Cons x xs)
  from PushBack_A_props [OF Cons.prems(1), of dflt mv ov x] obtain u where
    u: "PushBack_A dflt mv ov (Outside x) v = Inr u" "sv_size u = Suc (sv_size v)"
      "live u = live v @ [x]" "valid u"
      "sv_capacity u
         = (if sv_size v = sv_capacity v then max 1 (sv_capacity v * 2) else sv_capacity v)"
    by blast
  have le: "sv_size v \<le> sv_capacity v" using Cons.prems(1) by (simp add: valid_def)
  have p: "pow2_cap (sv_size u) (sv_capacity u)"
    using pow2_cap_step [OF Cons.prems(2) le] u(2,5) by simp
  from Cons.IH [OF u(4) p] u show ?case by auto
qed

lemma PushBack_all_B_from:
  assumes "valid v" "pow2_cap (sv_size v) (sv_capacity v)"
  shows "\<exists>w. PushBack_all_B dflt mv ov xs v = Inr w
     \<and> valid w
     \<and> sv_size w = sv_size v + length xs
     \<and> live w = live v @ xs
     \<and> pow2_cap (sv_size w) (sv_capacity w)"
  using assms
proof (induction xs arbitrary: v)
  case Nil
  then show ?case by simp
next
  case (Cons x xs)
  from PushBack_B_props [OF Cons.prems(1), of dflt mv ov x] obtain u where
    u: "PushBack_B dflt mv ov (Outside x) v = Inr u" "sv_size u = Suc (sv_size v)"
      "live u = live v @ [x]" "valid u"
      "sv_capacity u
         = (if sv_size v = sv_capacity v then max 1 (sv_capacity v * 2) else sv_capacity v)"
    by blast
  have le: "sv_size v \<le> sv_capacity v" using Cons.prems(1) by (simp add: valid_def)
  have p: "pow2_cap (sv_size u) (sv_capacity u)"
    using pow2_cap_step [OF Cons.prems(2) le] u(2,5) by simp
  from Cons.IH [OF u(4) p] u show ?case by auto
qed

lemma PushBack_all_A_props:
  "\<exists>w. PushBack_all_A dflt mv ov xs SimpleVector_default = Inr w
     \<and> valid w \<and> sv_size w = length xs \<and> live w = xs
     \<and> pow2_cap (length xs) (sv_capacity w)"
proof -
  have "pow2_cap (sv_size (SimpleVector_default :: 'a SimpleVector))
      (sv_capacity (SimpleVector_default :: 'a SimpleVector))"
    by (simp add: pow2_cap_def SimpleVector_default_def)
  moreover have "sv_size (SimpleVector_default :: 'a SimpleVector) = 0"
    by (simp add: SimpleVector_default_def)
  ultimately show ?thesis
    using PushBack_all_A_from [OF valid_default, of dflt mv ov xs] by auto
qed

lemma PushBack_all_B_props:
  "\<exists>w. PushBack_all_B dflt mv ov xs SimpleVector_default = Inr w
     \<and> valid w \<and> sv_size w = length xs \<and> live w = xs
     \<and> pow2_cap (length xs) (sv_capacity w)"
proof -
  have "pow2_cap (sv_size (SimpleVector_default :: 'a SimpleVector))
      (sv_capacity (SimpleVector_default :: 'a SimpleVector))"
    by (simp add: pow2_cap_def SimpleVector_default_def)
  moreover have "sv_size (SimpleVector_default :: 'a SimpleVector) = 0"
    by (simp add: SimpleVector_default_def)
  ultimately show ?thesis
    using PushBack_all_B_from [OF valid_default, of dflt mv ov xs] by auto
qed

lemma length_live: "valid w \<Longrightarrow> length (live w) = sv_size w"
  by (simp add: valid_def live_def)

lemma index_op_live: "valid w \<Longrightarrow> i < sv_size w \<Longrightarrow> index_op i w = Inr (live w ! i)"
  by (simp add: index_op_def ArrayPtr_index_def valid_def live_def)


section \<open>Filling and growing in Resize\<close>

lemma Get_copied:
  assumes "m \<le> length src" "m \<le> n"
  shows "Get (map_option (std_copy src 0 m 0) (ArrayPtr_size dflt n))
       = take m src @ replicate (n - m) dflt"
proof (cases "n = 0")
  case True
  with assms show ?thesis by (simp add: ArrayPtr_size_def)
next
  case False
  then have "Get (map_option (std_copy src 0 m 0) (ArrayPtr_size dflt n))
      = std_copy src 0 m 0 (replicate n dflt)"
    by (simp add: ArrayPtr_size_def)
  moreover have "std_copy src 0 m 0 (replicate n dflt) = take m src @ replicate (n - m) dflt"
    using assms by (intro nth_equalityI) (auto simp: nth_std_copy nth_append)
  ultimately show ?thesis by simp
qed

lemma std_fill_eq:
  assumes "m \<le> n" "n \<le> length xs"
  shows "std_fill m n x xs = take m xs @ replicate (n - m) x @ drop n xs"
  using assms by (intro nth_equalityI) (auto simp: nth_std_fill nth_append)

lemma Resize_B_shrink: "n \<le> sv_size v \<Longrightarrow> Resize_B dflt n v = v\<lparr>sv_size := n\<rparr>"
  by (simp add: Resize_B_def)

lemma Resize_B_fill:
  "sv_size v < n \<Longrightarrow> n \<le> sv_capacity v \<Longrightarrow>
   Resize_B dflt n v
     = v\<lparr>sv_data := map_option (std_fill (sv_size v) n dflt) (sv_data v), sv_size := n\<rparr>"
  by (simp add: Resize_B_def)

lemma Resize_B_grow:
  "sv_capacity v < n \<Longrightarrow> sv_size v \<le> sv_capacity v \<Longrightarrow>
   Resize_B dflt n v = (Reserve_B dflt n v)\<lparr>sv_size := n\<rparr>"
  by (auto simp: Resize_B_def Expand_B_def)

lemma Resize_A_shrink:
  "n \<le> sv_size v \<Longrightarrow> sv_size v \<le> sv_capacity v \<Longrightarrow> sv_capacity v \<noteq> 0 \<Longrightarrow>
   Resize_A dflt n v = v\<lparr>sv_size := n\<rparr>"
  by (simp add: Resize_A_def Reserve_A_noop)

lemma Resize_A_fill:
  "sv_size v < n \<Longrightarrow> n \<le> sv_capacity v \<Longrightarrow>
   Resize_A dflt n v
     = v\<lparr>sv_data := map_option (std_fill (sv_size v) n dflt) (sv_data v), sv_size := n\<rparr>"
  by (simp add: Resize_A_def)

lemma Resize_A_grow:
  "sv_capacity v < n \<or> sv_capacity v = 0 \<Longrightarrow> sv_size v \<le> sv_capacity v \<Longrightarrow>
   Resize_A dflt n v = (Reserve_A dflt n v)\<lparr>sv_size := n\<rparr>"
  by (auto simp: Resize_A_def)

text \<open>What a filled or a fresh tail looks like from the live range.\<close>

lemma live_fill:
  assumes "valid v" "sv_size v < n" "n \<le> sv_capacity v"
  shows "live (v\<lparr>sv_data := map_option (std_fill (sv_size v) n dflt) (sv_data v), sv_size := n\<rparr>)
       = live v @ replicate (n - sv_size v) dflt"
    and "valid (v\<lparr>sv_data := map_option (std_fill (sv_size v) n dflt) (sv_data v), sv_size := n\<rparr>)"
proof -
  from assms obtain xs where xs: "sv_data v = Some xs" "length xs = sv_capacity v"
    by (cases "sv_data v") (auto simp: valid_def)
  with assms show "live (v\<lparr>sv_data := map_option (std_fill (sv_size v) n dflt) (sv_data v), sv_size := n\<rparr>)
       = live v @ replicate (n - sv_size v) dflt"
    by (simp add: live_def std_fill_eq valid_def)
  from xs assms show "valid (v\<lparr>sv_data := map_option (std_fill (sv_size v) n dflt) (sv_data v), sv_size := n\<rparr>)"
    by (simp add: valid_def)
qed

lemma live_grown_B:
  assumes "valid v" "sv_capacity v < n"
  shows "live ((Reserve_B dflt n v)\<lparr>sv_size := n\<rparr>) = live v @ replicate (n - sv_size v) dflt"
    and "valid ((Reserve_B dflt n v)\<lparr>sv_size := n\<rparr>)"
    and "sv_capacity ((Reserve_B dflt n v)\<lparr>sv_size := n\<rparr>) = n"
  using assms Get_copied [of "sv_size v" "Get (sv_data v)" n dflt]
  by (simp_all add: Reserve_B_grow live_def valid_def)

lemma live_grown_A:
  assumes "valid v" "sv_capacity v < n"
  shows "live ((Reserve_A dflt n v)\<lparr>sv_size := n\<rparr>) = live v @ replicate (n - sv_size v) dflt"
    and "valid ((Reserve_A dflt n v)\<lparr>sv_size := n\<rparr>)"
    and "sv_capacity ((Reserve_A dflt n v)\<lparr>sv_size := n\<rparr>) = n"
proof -
  have m: "max n 1 = n" using assms(2) by simp
  show "live ((Reserve_A dflt n v)\<lparr>sv_size := n\<rparr>) = live v @ replicate (n - sv_size v) dflt"
    and "valid ((Reserve_A dflt n v)\<lparr>sv_size := n\<rparr>)"
    and "sv_capacity ((Reserve_A dflt n v)\<lparr>sv_size := n\<rparr>) = n"
    using assms Get_copied [of "sv_size v" "Get (sv_data v)" n dflt]
    by (simp_all add: Reserve_A_grow m live_def valid_def)
qed

lemma Resize_B_props:
  assumes "valid v"
  shows "sv_size (Resize_B dflt n v) = n"
    and "live (Resize_B dflt n v) = take n (live v) @ replicate (n - sv_size v) dflt"
    and "valid (Resize_B dflt n v)"
    and "sv_capacity (Resize_B dflt n v) = max n (sv_capacity v)"
proof -
  have s: "sv_size v \<le> sv_capacity v" using assms by (simp add: valid_def)
  consider "n \<le> sv_size v" | "sv_size v < n" "n \<le> sv_capacity v" | "sv_capacity v < n"
    by linarith
  then have "sv_size (Resize_B dflt n v) = n
    \<and> live (Resize_B dflt n v) = take n (live v) @ replicate (n - sv_size v) dflt
    \<and> valid (Resize_B dflt n v)
    \<and> sv_capacity (Resize_B dflt n v) = max n (sv_capacity v)"
  proof cases
    case 1
    with assms show ?thesis by (simp add: Resize_B_shrink live_def valid_def min_def)
  next
    case 2
    with live_fill [OF assms 2, of dflt] length_live [OF assms] show ?thesis
      by (simp add: Resize_B_fill)
  next
    case 3
    with live_grown_B [OF assms 3, of dflt] length_live [OF assms] s show ?thesis
      by (simp add: Resize_B_grow)
  qed
  then show "sv_size (Resize_B dflt n v) = n"
    and "live (Resize_B dflt n v) = take n (live v) @ replicate (n - sv_size v) dflt"
    and "valid (Resize_B dflt n v)"
    and "sv_capacity (Resize_B dflt n v) = max n (sv_capacity v)" by simp_all
qed

lemma Resize_A_zero:
  "sv_capacity v = 0 \<Longrightarrow> sv_size v = 0 \<Longrightarrow>
   Resize_A dflt 0 v = v\<lparr>sv_data := Some [dflt], sv_capacity := 1, sv_size := 0\<rparr>"
  by (simp add: Resize_A_def Reserve_A_def ArrayPtr_size_def)

lemma Resize_A_props:
  assumes "valid v"
  shows "sv_size (Resize_A dflt n v) = n"
    and "live (Resize_A dflt n v) = take n (live v) @ replicate (n - sv_size v) dflt"
    and "valid (Resize_A dflt n v)"
    and "sv_capacity (Resize_A dflt n v)
          = (if sv_capacity v = 0 then max n 1 else max n (sv_capacity v))"
proof -
  have s: "sv_size v \<le> sv_capacity v" using assms by (simp add: valid_def)
  consider "n \<le> sv_size v" "sv_capacity v \<noteq> 0" | "n = 0" "sv_capacity v = 0"
    | "sv_size v < n" "n \<le> sv_capacity v" | "sv_capacity v < n"
    using s by linarith
  then have "sv_size (Resize_A dflt n v) = n
    \<and> live (Resize_A dflt n v) = take n (live v) @ replicate (n - sv_size v) dflt
    \<and> valid (Resize_A dflt n v)
    \<and> sv_capacity (Resize_A dflt n v)
          = (if sv_capacity v = 0 then max n 1 else max n (sv_capacity v))"
  proof cases
    case 1
    with assms s show ?thesis by (simp add: Resize_A_shrink live_def valid_def min_def)
  next
    case 2
    with s have "sv_size v = 0" by simp
    with 2 show ?thesis by (simp add: Resize_A_zero live_def valid_def)
  next
    case 3
    with live_fill [OF assms 3, of dflt] length_live [OF assms] show ?thesis
      by (simp add: Resize_A_fill)
  next
    case 4
    with live_grown_A [OF assms 4, of dflt] length_live [OF assms] s show ?thesis
      by (auto simp: Resize_A_grow)
  qed
  then show "sv_size (Resize_A dflt n v) = n"
    and "live (Resize_A dflt n v) = take n (live v) @ replicate (n - sv_size v) dflt"
    and "valid (Resize_A dflt n v)"
    and "sv_capacity (Resize_A dflt n v)
          = (if sv_capacity v = 0 then max n 1 else max n (sv_capacity v))" by simp_all
qed


section \<open>Insert and Erase: the shifts, and what each offset gives\<close>

lemma std_copy_mi_fun: "std_copy_mi = std_move"
  by (intro ext) (rule std_copy_mi_eq)

lemma std_copy_backward_mi_fun: "std_copy_backward_mi = std_move_backward"
  by (intro ext) (rule std_copy_backward_mi_eq)

lemma insert_shift:
  assumes "p \<le> n" "n < length ys"
  shows "take (Suc n) ((std_move_backward mv p n (Suc n) ys)[p := x])
       = take p (take n ys) @ [x] @ drop p (take n ys)"
proof (rule nth_equalityI)
  show "length (take (Suc n) ((std_move_backward mv p n (Suc n) ys)[p := x]))
      = length (take p (take n ys) @ [x] @ drop p (take n ys))"
    using assms by simp
next
  fix i
  assume "i < length (take (Suc n) ((std_move_backward mv p n (Suc n) ys)[p := x]))"
  then have i: "i \<le> n" using assms by simp
  consider "i < p" | "i = p" | "p < i" by linarith
  then show "take (Suc n) ((std_move_backward mv p n (Suc n) ys)[p := x]) ! i
      = (take p (take n ys) @ [x] @ drop p (take n ys)) ! i"
  proof cases
    case 1
    with i assms show ?thesis
      by (simp add: nth_std_move_backward_Suc nth_append)
  next
    case 2
    with i assms show ?thesis
      by (simp add: nth_append)
  next
    case 3
    with i assms show ?thesis
      by (simp add: nth_std_move_backward_Suc nth_append min_def)
  qed
qed

lemma erase_shift:
  assumes "p < n" "n \<le> length ys"
  shows "take (n - 1) (std_move mv (Suc p) n p ys) = take p (take n ys) @ drop (Suc p) (take n ys)"
proof (rule nth_equalityI)
  show "length (take (n - 1) (std_move mv (Suc p) n p ys))
      = length (take p (take n ys) @ drop (Suc p) (take n ys))"
    using assms by simp
next
  fix i
  assume "i < length (take (n - 1) (std_move mv (Suc p) n p ys))"
  then have i: "i < n - 1" "Suc i < n" using assms by simp_all
  show "take (n - 1) (std_move mv (Suc p) n p ys) ! i
      = (take p (take n ys) @ drop (Suc p) (take n ys)) ! i"
  proof (cases "i < p")
    case True
    with i assms show ?thesis by (simp add: nth_std_move nth_append)
  next
    case False
    with i assms show ?thesis by (simp add: nth_std_move nth_append min_def)
  qed
qed

text \<open>Growing as \<open>PushBack\<close> does, for \<open>Insert\<close>.\<close>

lemma grown_A:
  assumes "valid v"
    and w_def: "w = (if sv_size v = sv_capacity v then Reserve_A dflt (sv_capacity v * 2) v else v)"
  shows "valid w" and "sv_size w = sv_size v" and "live w = live v"
    and "sv_size w < sv_capacity w"
    and "sv_capacity w
          = (if sv_size v = sv_capacity v then max 1 (sv_capacity v * 2) else sv_capacity v)"
proof -
  have g: "sv_capacity v = 0 \<or> sv_capacity v < sv_capacity v * 2" by auto
  have "valid w \<and> sv_size w = sv_size v \<and> live w = live v \<and> sv_size w < sv_capacity w
    \<and> sv_capacity w
          = (if sv_size v = sv_capacity v then max 1 (sv_capacity v * 2) else sv_capacity v)"
  proof (cases "sv_size v = sv_capacity v")
    case True
    with Reserve_A_props [OF assms(1), of dflt "sv_capacity v * 2"]
      Reserve_A_exact [OF g, of dflt]
    show ?thesis by (auto simp: w_def max_def)
  next
    case False
    with assms(1) show ?thesis by (simp add: w_def valid_def)
  qed
  then show "valid w" and "sv_size w = sv_size v" and "live w = live v"
    and "sv_size w < sv_capacity w"
    and "sv_capacity w
          = (if sv_size v = sv_capacity v then max 1 (sv_capacity v * 2) else sv_capacity v)"
    by simp_all
qed

lemma grown_B:
  assumes "valid v"
    and w_def: "w = (if sv_size v = sv_capacity v then Expand_B dflt (sv_capacity v * 2) v else v)"
  shows "valid w" and "sv_size w = sv_size v" and "live w = live v"
    and "sv_size w < sv_capacity w"
    and "sv_capacity w
          = (if sv_size v = sv_capacity v then max 1 (sv_capacity v * 2) else sv_capacity v)"
proof -
  have g: "sv_capacity v < max (sv_capacity v * 2) 1" by (simp add: max_def)
  have "valid w \<and> sv_size w = sv_size v \<and> live w = live v \<and> sv_size w < sv_capacity w
    \<and> sv_capacity w
          = (if sv_size v = sv_capacity v then max 1 (sv_capacity v * 2) else sv_capacity v)"
  proof (cases "sv_size v = sv_capacity v")
    case True
    with Reserve_B_props [OF assms(1), of dflt "max (sv_capacity v * 2) 1"]
      Reserve_B_exact [OF g, of dflt]
    show ?thesis by (auto simp: w_def Expand_B_eq max_def)
  next
    case False
    with assms(1) show ?thesis by (simp add: w_def valid_def)
  qed
  then show "valid w" and "sv_size w = sv_size v" and "live w = live v"
    and "sv_size w < sv_capacity w"
    and "sv_capacity w
          = (if sv_size v = sv_capacity v then max 1 (sv_capacity v * 2) else sv_capacity v)"
    by simp_all
qed

text \<open>The shift and the store of \<open>Insert\<close>, on a vector with room.\<close>

lemma insert_store:
  assumes "valid w" "sv_size w < sv_capacity w" "p \<le> sv_size w"
    and u_def: "u = w\<lparr>sv_data := ArrayPtr_assign p x
      (map_option (std_move_backward mv p (sv_size w) (sv_size w + 1)) (sv_data w)),
      sv_size := Suc (sv_size w)\<rparr>"
  shows "live u = take p (live w) @ [x] @ drop p (live w)" and "valid u"
proof -
  from assms(1,2) obtain ys where ys: "sv_data w = Some ys" "length ys = sv_capacity w"
    by (cases "sv_data w") (auto simp: valid_def)
  have n: "sv_size w < length ys" using assms(2) ys by simp
  show "live u = take p (live w) @ [x] @ drop p (live w)"
    using insert_shift [OF assms(3) n, of mv x] ys
    by (simp add: u_def live_def ArrayPtr_assign_def)
  show "valid u"
    using ys assms(2) by (simp add: u_def valid_def ArrayPtr_assign_def)
qed

lemma Insert_A_at:
  assumes "valid v" "0 \<le> to_int p" "to_int p \<le> int (sv_size v)"
  shows "\<exists>w. Insert_A dflt mv ov p (Outside x) v = Inr (nat (to_int p), w)
     \<and> live w = take (nat (to_int p)) (live v) @ [x] @ drop (nat (to_int p)) (live v)
     \<and> sv_size w = Suc (sv_size v)
     \<and> sv_capacity w
          = (if sv_size v = sv_capacity v then max 1 (sv_capacity v * 2) else sv_capacity v)
     \<and> valid w"
proof -
  define q where "q = nat (to_int p)"
  define w where "w = (if sv_size v = sv_capacity v then Reserve_A dflt (sv_capacity v * 2) v else v)"
  note g = grown_A [OF assms(1) w_def]
  have q: "q \<le> sv_size w" using assms(2,3) g(2) by (simp add: q_def)
  define u where "u = w\<lparr>sv_data := ArrayPtr_assign q x
      (map_option (std_move_backward mv q (sv_size w) (sv_size w + 1)) (sv_data w)),
      sv_size := Suc (sv_size w)\<rparr>"
  note s = insert_store [OF g(1) g(4) q u_def]
  have "Insert_A dflt mv ov p (Outside x) v = Inr (q, u)"
    using assms(2,3) by (simp add: Insert_A_def Let_def u_def w_def q_def)
  moreover have "sv_size u = Suc (sv_size v)" "sv_capacity u = sv_capacity w"
    using g(2) by (simp_all add: u_def)
  ultimately show ?thesis using s g by (simp add: q_def)
qed

lemma Insert_B_at:
  assumes "valid v" "0 \<le> to_int p" "to_int p \<le> int (sv_size v)"
  shows "\<exists>w. Insert_B dflt mv ov p (Outside x) v = Inr (nat (to_int p), w)
     \<and> live w = take (nat (to_int p)) (live v) @ [x] @ drop (nat (to_int p)) (live v)
     \<and> sv_size w = Suc (sv_size v)
     \<and> sv_capacity w
          = (if sv_size v = sv_capacity v then max 1 (sv_capacity v * 2) else sv_capacity v)
     \<and> valid w"
proof -
  define q where "q = nat (to_int p)"
  define w where "w = (if sv_size v = sv_capacity v then Expand_B dflt (sv_capacity v * 2) v else v)"
  note g = grown_B [OF assms(1) w_def]
  have q: "q \<le> sv_size w" using assms(2,3) g(2) by (simp add: q_def)
  define u where "u = w\<lparr>sv_data := ArrayPtr_assign q x
      (map_option (std_move_backward mv q (sv_size w) (sv_size w + 1)) (sv_data w)),
      sv_size := Suc (sv_size w)\<rparr>"
  note s = insert_store [OF g(1) g(4) q u_def]
  have "Insert_B dflt mv ov p (Outside x) v = Inr (q, u)"
    using assms(2,3)
    by (simp add: Insert_B_def Let_def u_def w_def q_def std_copy_backward_mi_fun)
  moreover have "sv_size u = Suc (sv_size v)" "sv_capacity u = sv_capacity w"
    using g(2) by (simp_all add: u_def)
  ultimately show ?thesis using s g by (simp add: q_def)
qed

text \<open>
  \<open>Insert\<close> with a reference to an element of the vector itself. At full capacity the
  block is deleted before the reference is read. With room the reference is read after
  the shift, when the slot holds what the shift has left there: the element that was
  one slot to the left, or at the position itself the moved-from element.
\<close>

lemma Insert_A_slot_full:
  "sv_size v = sv_capacity v \<Longrightarrow> Insert_A dflt mv ov p (Slot i) v = Inl UndefinedBehaviour"
  by (simp add: Insert_A_def Let_def)

lemma Insert_B_slot_full:
  "sv_size v = sv_capacity v \<Longrightarrow> Insert_B dflt mv ov p (Slot i) v = Inl UndefinedBehaviour"
  by (simp add: Insert_B_def Let_def)

lemma Insert_B_room_eq:
  "sv_size v \<noteq> sv_capacity v \<Longrightarrow> Insert_B dflt mv ov p a v = Insert_A dflt mv ov p a v"
  by (simp add: Insert_B_def Insert_A_def std_copy_backward_mi_fun Let_def)

lemma insert_store_slot:
  assumes "valid w" "sv_size w < sv_capacity w" "p \<le> sv_size w" "i < sv_size w"
    and e_def: "e = (if i < p then live w ! i else if i = p then mv (live w ! p)
                     else live w ! (i - 1))"
  shows "\<exists>d. assign_value ov mv False p (Slot i)
            (map_option (std_move_backward mv p (sv_size w) (sv_size w + 1)) (sv_data w)) = Inr d
     \<and> live (w\<lparr>sv_data := d, sv_size := Suc (sv_size w)\<rparr>)
         = (case ov of
              Copying \<Rightarrow> take p (live w) @ [e] @ drop p (live w)
            | Moving \<Rightarrow> (take p (live w) @ [e] @ drop p (live w))[i := mv e])
     \<and> valid (w\<lparr>sv_data := d, sv_size := Suc (sv_size w)\<rparr>)"
proof -
  from assms(1,2) obtain ys where ys: "sv_data w = Some ys" "length ys = sv_capacity w"
    by (cases "sv_data w") (auto simp: valid_def)
  define n where "n = sv_size w"
  define sh where "sh = std_move_backward mv p n (Suc n) ys"
  have n: "n < length ys" "i < n" "i < length ys" "p \<le> n"
    using assms(2-4) ys by (simp_all add: n_def)
  have l: "live w = take n ys" using ys by (simp add: live_def n_def)
  have e: "sh ! i = e"
    using n by (auto simp: sh_def e_def l nth_std_move_backward_Suc)
  have len: "length sh = length ys" by (simp add: sh_def)
  have c: "take (Suc n) (sh[p := e]) = take p (live w) @ [e] @ drop p (live w)"
    using insert_shift [OF n(4) n(1), of mv e] by (simp add: sh_def l)
  have m: "take (Suc n) (sh[p := e, i := mv e])
      = (take p (live w) @ [e] @ drop p (live w))[i := mv e]"
    using c by (simp add: take_update_swap)
  have g: "Get (map_option (std_move_backward mv p n (Suc n)) (sv_data w)) = sh"
    using ys by (simp add: sh_def)
  show ?thesis
  proof (cases ov)
    case Copying
    then show ?thesis
      using ys n c e len g
        assign_value_Slot [of i "map_option (std_move_backward mv p n (Suc n)) (sv_data w)" ov mv p]
      by (simp add: live_def valid_def ArrayPtr_assign_def n_def [symmetric] sh_def [symmetric])
  next
    case Moving
    then show ?thesis
      using ys n m e len g
        assign_value_Slot [of i "map_option (std_move_backward mv p n (Suc n)) (sv_data w)" ov mv p]
      by (simp add: live_def valid_def ArrayPtr_assign_def n_def [symmetric] sh_def [symmetric])
  qed
qed

lemma Insert_A_slot_room:
  assumes "valid v" "sv_size v \<noteq> sv_capacity v" "0 \<le> to_int p" "to_int p \<le> int (sv_size v)"
    "i < sv_size v"
    and q_def: "q = nat (to_int p)"
    and e_def: "e = (if i < q then live v ! i else if i = q then mv (live v ! q)
                     else live v ! (i - 1))"
  shows "\<exists>w. Insert_A dflt mv ov p (Slot i) v = Inr (q, w)
     \<and> live w = (case ov of
                   Copying \<Rightarrow> take q (live v) @ [e] @ drop q (live v)
                 | Moving \<Rightarrow> (take q (live v) @ [e] @ drop q (live v))[i := mv e])
     \<and> sv_size w = Suc (sv_size v)
     \<and> sv_capacity w = sv_capacity v
     \<and> valid w"
proof -
  have lt: "sv_size v < sv_capacity v" using assms(1,2) by (simp add: valid_def)
  have q: "q \<le> sv_size v" using assms(3,4) by (simp add: q_def)
  from insert_store_slot [where mv = mv and ov = ov, OF assms(1) lt q assms(5) e_def]
  obtain d where
    d: "assign_value ov mv False q (Slot i)
          (map_option (std_move_backward mv q (sv_size v) (sv_size v + 1)) (sv_data v)) = Inr d"
      "live (v\<lparr>sv_data := d, sv_size := Suc (sv_size v)\<rparr>)
         = (case ov of
              Copying \<Rightarrow> take q (live v) @ [e] @ drop q (live v)
            | Moving \<Rightarrow> (take q (live v) @ [e] @ drop q (live v))[i := mv e])"
      "valid (v\<lparr>sv_data := d, sv_size := Suc (sv_size v)\<rparr>)" by blast
  have "Insert_A dflt mv ov p (Slot i) v = Inr (q, v\<lparr>sv_data := d, sv_size := Suc (sv_size v)\<rparr>)"
    using assms(2-4) d(1) by (simp add: Insert_A_def Let_def q_def)
  with d(2,3) show ?thesis by simp
qed

lemma Erase_A_at:
  assumes "valid v" "0 \<le> to_int p" "to_int p < int (sv_size v)"
  shows "\<exists>w. Erase_A mv p v = Inr (nat (to_int p), w)
     \<and> live w = take (nat (to_int p)) (live v) @ drop (Suc (nat (to_int p))) (live v)
     \<and> sv_size w = sv_size v - 1
     \<and> sv_capacity w = sv_capacity v
     \<and> valid w"
proof -
  define q where "q = nat (to_int p)"
  have q: "q < sv_size v" using assms(2,3) by (simp add: q_def)
  from assms(1) q obtain ys where ys: "sv_data v = Some ys" "length ys = sv_capacity v"
    by (cases "sv_data v") (auto simp: valid_def)
  have n: "sv_size v \<le> length ys" using assms(1) ys by (simp add: valid_def)
  define u where "u = v\<lparr>sv_data := map_option (std_move mv (q + 1) (sv_size v) q) (sv_data v),
      sv_size := sv_size v - 1\<rparr>"
  have "Erase_A mv p v = Inr (q, u)"
    using assms(2,3) by (simp add: Erase_A_def Let_def u_def q_def)
  moreover have "live u = take q (live v) @ drop (Suc q) (live v)"
    using erase_shift [OF q n, of mv] ys by (simp add: u_def live_def)
  moreover have "valid u" using ys assms(1) by (simp add: u_def valid_def)
  ultimately show ?thesis by (simp add: u_def q_def)
qed

lemma Insert_A_Inl:
  "to_int p < 0 \<or> int (sv_size v) < to_int p \<Longrightarrow> Insert_A dflt mv ov p a v = Inl UndefinedBehaviour"
  by (simp add: Insert_A_def Let_def)

lemma Insert_B_Inl:
  "to_int p < 0 \<or> int (sv_size v) < to_int p \<Longrightarrow> Insert_B dflt mv ov p a v = Inl UndefinedBehaviour"
  by (simp add: Insert_B_def Let_def)

lemma Erase_A_Inl:
  "to_int p < 0 \<or> int (sv_size v) \<le> to_int p \<Longrightarrow> Erase_A mv p v = Inl UndefinedBehaviour"
  by (simp add: Erase_A_def Let_def)

lemma Insert_A_props:
  assumes "valid v" "p \<le> sv_size v" "p < 2 ^ 31"
  shows "\<exists>w. Insert_A dflt mv ov p (Outside x) v = Inr (p, w)
     \<and> live w = take p (live v) @ [x] @ drop p (live v)
     \<and> sv_size w = Suc (sv_size v)
     \<and> sv_capacity w
          = (if sv_size v = sv_capacity v then max 1 (sv_capacity v * 2) else sv_capacity v)
     \<and> valid w"
  using Insert_A_at [OF assms(1), of p dflt mv ov x] assms(2)
  by (simp add: to_int_small [OF assms(3)])

lemma Insert_B_props:
  assumes "valid v" "p \<le> sv_size v" "p < 2 ^ 31"
  shows "\<exists>w. Insert_B dflt mv ov p (Outside x) v = Inr (p, w)
     \<and> live w = take p (live v) @ [x] @ drop p (live v)
     \<and> sv_size w = Suc (sv_size v)
     \<and> sv_capacity w
          = (if sv_size v = sv_capacity v then max 1 (sv_capacity v * 2) else sv_capacity v)
     \<and> valid w"
  using Insert_B_at [OF assms(1), of p dflt mv ov x] assms(2)
  by (simp add: to_int_small [OF assms(3)])

lemma Erase_A_props:
  assumes "valid v" "p < sv_size v" "p < 2 ^ 31"
  shows "\<exists>w. Erase_A mv p v = Inr (p, w)
     \<and> live w = take p (live v) @ drop (Suc p) (live v)
     \<and> sv_size w = sv_size v - 1
     \<and> sv_capacity w = sv_capacity v
     \<and> valid w"
  using Erase_A_at [OF assms(1), of p mv] assms(2)
  by (simp add: to_int_small [OF assms(3)])

lemma Erase_B_eq: "Erase_B mv p v = Erase_A mv p v"
  by (simp add: Erase_B_def Erase_A_def std_copy_mi_fun Let_def)

lemma std_equal_iff: "std_equal xs ys \<longleftrightarrow> xs = ys"
  by (induction xs ys rule: std_equal.induct) auto

lemma eq_op_iff: "eq_op lhs rhs \<longleftrightarrow> live lhs = live rhs"
  by (simp add: eq_op_def std_equal_iff)

lemma valid_SimpleVector_size [simp]: "valid (SimpleVector_size dflt n)"
  by (simp add: valid_def SimpleVector_size_def)

lemma sv_size_SimpleVector_size [simp]: "sv_size (SimpleVector_size dflt n) = n"
  by (simp add: SimpleVector_size_def)

lemma to_int_2_31: "to_int (2 ^ 31) < 0"
  by (simp add: to_int_def)

lemma Insert_A_negative: "to_int p < 0 \<Longrightarrow> Insert_A dflt mv ov p a v = Inl UndefinedBehaviour"
  by (simp add: Insert_A_def Let_def)

lemma Insert_B_negative: "to_int p < 0 \<Longrightarrow> Insert_B dflt mv ov p a v = Inl UndefinedBehaviour"
  by (simp add: Insert_B_def Let_def)

lemma to_int_2_32: "to_int (2 ^ 32) = 0"
  by (simp add: to_int_def)

lemma Insert_wraps_A:
  "\<exists>w. Insert_A (CHR 0x00) id ov (2 ^ 32) (Outside (CHR ''x'')) bigger = Inr (0, w) \<and>
     live w = CHR ''x'' # live bigger"
proof -
  have v: "valid bigger" by (simp add: bigger_def)
  have z: "0 \<le> to_int (2 ^ 32)" "to_int (2 ^ 32) \<le> int (sv_size bigger)"
    using to_int_2_32 by simp_all
  from Insert_A_at [OF v z, of "CHR 0x00" id ov "CHR ''x''"] show ?thesis
    using to_int_2_32 by auto
qed

lemma Insert_wraps_B:
  "\<exists>w. Insert_B (CHR 0x00) id ov (2 ^ 32) (Outside (CHR ''x'')) bigger = Inr (0, w) \<and>
     live w = CHR ''x'' # live bigger"
proof -
  have v: "valid bigger" by (simp add: bigger_def)
  have z: "0 \<le> to_int (2 ^ 32)" "to_int (2 ^ 32) \<le> int (sv_size bigger)"
    using to_int_2_32 by simp_all
  from Insert_B_at [OF v z, of "CHR 0x00" id ov "CHR ''x''"] show ?thesis
    using to_int_2_32 by auto
qed

lemma Insert_then_Erase_A_small:
  assumes "valid v" "p \<le> sv_size v" "p < 2 ^ 31"
  shows "\<exists>w. Insert_then_Erase_A dflt mv ov p (Outside x) v = Inr (p, w) \<and> live w = live v \<and> eq_op w v
     \<and> sv_size w = sv_size v \<and> valid w"
proof -
  from Insert_A_props [OF assms, of dflt mv ov x] obtain u where
    u: "Insert_A dflt mv ov p (Outside x) v = Inr (p, u)"
      "live u = take p (live v) @ [x] @ drop p (live v)" "sv_size u = Suc (sv_size v)" "valid u"
    by blast
  have pu: "p < sv_size u" using assms(2) u(3) by simp
  from Erase_A_props [OF u(4) pu assms(3), of mv] obtain w where
    w: "Erase_A mv p u = Inr (p, w)" "live w = take p (live u) @ drop (Suc p) (live u)"
      "sv_size w = sv_size u - 1" "valid w"
    by blast
  have "live w = live v"
    using assms(2) length_live [OF assms(1)] by (simp add: w(2) u(2))
  then show ?thesis
    using u w by (simp add: Insert_then_Erase_A_def eq_op_iff)
qed

lemma Insert_then_Erase_B_small:
  assumes "valid v" "p \<le> sv_size v" "p < 2 ^ 31"
  shows "\<exists>w. Insert_then_Erase_B dflt mv ov p (Outside x) v = Inr (p, w) \<and> live w = live v \<and> eq_op w v
     \<and> sv_size w = sv_size v \<and> valid w"
proof -
  from Insert_B_props [OF assms, of dflt mv ov x] obtain u where
    u: "Insert_B dflt mv ov p (Outside x) v = Inr (p, u)"
      "live u = take p (live v) @ [x] @ drop p (live v)" "sv_size u = Suc (sv_size v)" "valid u"
    by blast
  have pu: "p < sv_size u" using assms(2) u(3) by simp
  from Erase_A_props [OF u(4) pu assms(3), of mv] obtain w where
    w: "Erase_A mv p u = Inr (p, w)" "live w = take p (live u) @ drop (Suc p) (live u)"
      "sv_size w = sv_size u - 1" "valid w"
    by blast
  have "live w = live v"
    using assms(2) length_live [OF assms(1)] by (simp add: w(2) u(2))
  then show ?thesis
    using u w by (simp add: Insert_then_Erase_B_def eq_op_iff Erase_B_eq)
qed


section \<open>Two objects\<close>

lemmas setters = set_data_def set_size_def set_capacity_def

lemma MoveFrom_distinct:
  assumes "this \<noteq> other"
  shows "MoveFrom this other s = s(this := s other, other := SimpleVector_default)"
  using assms
  by (auto simp: MoveFrom_def ArrayPtr_MoveFrom_def setters Let_def fun_eq_iff
      SimpleVector_default_def)

lemma MoveFrom_self: "MoveFrom r r s = s"
  by (auto simp: MoveFrom_def ArrayPtr_MoveFrom_def setters Let_def fun_eq_iff)

lemma CopyAndSwap_this:
  "CopyAndSwap dflt this other s this =
     \<lparr>sv_data = map_option (std_copy (Get (sv_data (s other))) 0 (sv_size (s other)) 0)
                  (ArrayPtr_size dflt (sv_size (s other))),
      sv_size = sv_size (s other), sv_capacity = sv_size (s other)\<rparr>"
  by (simp add: CopyAndSwap_def setters Let_def)

lemma CopyAndSwap_frame: "r \<noteq> this \<Longrightarrow> CopyAndSwap dflt this other s r = s r"
  by (simp add: CopyAndSwap_def setters Let_def)

lemma CopyAndSwap_props:
  assumes "valid (s other)"
  shows "sv_size (CopyAndSwap dflt this other s this) = sv_size (s other)"
    and "sv_capacity (CopyAndSwap dflt this other s this) = sv_size (s other)"
    and "live (CopyAndSwap dflt this other s this) = live (s other)"
    and "valid (CopyAndSwap dflt this other s this)"
proof -
  have le: "sv_size (s other) \<le> length (Get (sv_data (s other)))"
    using assms by (simp add: valid_def)
  show "sv_size (CopyAndSwap dflt this other s this) = sv_size (s other)"
    and "sv_capacity (CopyAndSwap dflt this other s this) = sv_size (s other)"
    and "live (CopyAndSwap dflt this other s this) = live (s other)"
    and "valid (CopyAndSwap dflt this other s this)"
    using take_Get_copied [OF le order_refl, of dflt] le
    by (simp_all add: CopyAndSwap_this live_def valid_def)
qed

lemma swap_sv_distinct:
  "this \<noteq> other \<Longrightarrow> swap_sv this other s = s(this := s other, other := s this)"
  by (auto simp: swap_sv_def ArrayPtr_swap_def setters Let_def fun_eq_iff)

lemma swap_sv_self: "swap_sv r r s = s"
  by (auto simp: swap_sv_def ArrayPtr_swap_def setters Let_def fun_eq_iff)


section \<open>Self-assignment, block by block\<close>

lemma MoveFrom_at_self: "MoveFrom_at r r h = h"
  by (simp add: MoveFrom_at_def Let_def)

lemma CopyAndSwap_at_self_empty:
  assumes "owns h r" "at_size (vecs h r) = 0"
  shows "\<exists>h'. CopyAndSwap_at dflt r r h = Inr h' \<and> live_at h' r = live_at h r
    \<and> at_size (vecs h' r) = at_size (vecs h r)
    \<and> at_data (vecs h' r) = None
    \<and> (\<forall>a. at_data (vecs h r) = Some a \<longrightarrow> blocks h' a = None)
    \<and> (\<exists>h''. destroy_at r h' = Inr h'')
    \<and> owns h' r"
  using assms
  by (auto simp: CopyAndSwap_at_def new_array_def copy_at_def delete_array_def Let_def
      live_at_def block_at_def owns_def destroy_at_def split: option.splits)

lemma CopyAndSwap_at_self_some:
  assumes "owns h r" "at_size (vecs h r) \<noteq> 0"
  shows "\<exists>h' a. CopyAndSwap_at dflt r r h = Inr h' \<and> live_at h' r = live_at h r
    \<and> at_size (vecs h' r) = at_size (vecs h r)
    \<and> at_data (vecs h r) = Some a \<and> blocks h' a = None
    \<and> at_data (vecs h' r) = Some (fresh h)
    \<and> (\<exists>h''. destroy_at r h' = Inr h'' \<and> blocks h'' (fresh h) = None)
    \<and> owns h' r"
proof -
  let ?n = "at_size (vecs h r)"
  from assms obtain a xs where a: "at_data (vecs h r) = Some a" "a < fresh h"
    "blocks h a = Some xs" "length xs = at_capacity (vecs h r)"
    by (auto simp: owns_def split: option.splits)
  have n: "?n \<le> length xs" "?n \<noteq> 0" using assms a by (simp_all add: owns_def)
  have fr: "\<forall>b. fresh h \<le> b \<longrightarrow> blocks h b = None" using assms(1) by (simp add: owns_def)
  have ne: "a \<noteq> fresh h" using a(2) by simp
  have t: "take ?n (std_copy xs 0 ?n 0 (replicate ?n dflt)) = take ?n xs"
    using n by (intro nth_equalityI) (simp_all add: nth_std_copy)
  show ?thesis
    using a n ne fr t
    by (auto simp: CopyAndSwap_at_def new_array_def copy_at_def delete_array_def Let_def
        live_at_def block_at_def owns_def destroy_at_def)
qed

lemma CopyAndSwap_at_self:
  assumes "owns h r"
  shows "\<exists>h'. CopyAndSwap_at dflt r r h = Inr h' \<and> live_at h' r = live_at h r
    \<and> at_size (vecs h' r) = at_size (vecs h r)
    \<and> (\<forall>a. at_data (vecs h r) = Some a \<longrightarrow> blocks h' a = None)
    \<and> (\<exists>h''. destroy_at r h' = Inr h'')
    \<and> owns h' r"
proof (cases "at_size (vecs h r) = 0")
  case True
  from CopyAndSwap_at_self_empty [OF assms True, of dflt] show ?thesis by blast
next
  case False
  from CopyAndSwap_at_self_some [OF assms False, of dflt] show ?thesis by fastforce
qed


section \<open>Keeping the class invariant\<close>

lemma PushBack_A_valid:
  assumes "valid v" "PushBack_A dflt mv ov a v = Inr w"
  shows "valid w"
proof (cases a)
  case (Outside x)
  with PushBack_A_props [OF assms(1), of dflt mv ov x] assms(2) show ?thesis by auto
next
  case (Slot i)
  have room: "sv_size v \<noteq> sv_capacity v"
    using assms(2) Slot PushBack_A_slot_full [of v dflt mv ov i] by auto
  from assms(2) Slot room obtain d where
    d: "assign_value ov mv False (sv_size v) (Slot i) (sv_data v) = Inr d"
      "w = v\<lparr>sv_data := d, sv_size := Suc (sv_size v)\<rparr>"
    by (auto simp: PushBack_A_def Let_def split: sum.splits)
  from assign_value_length [OF d(1)] have "length (Get d) = length (Get (sv_data v))" .
  then show ?thesis using assms(1) room by (simp add: d(2) valid_def)
qed

lemma PushBack_B_valid:
  assumes "valid v" "PushBack_B dflt mv ov a v = Inr w"
  shows "valid w"
proof (cases "sv_size v = sv_capacity v")
  case False
  with assms PushBack_A_valid show ?thesis by (simp add: PushBack_B_room_eq)
next
  case True
  show ?thesis
  proof (cases a)
    case (Outside x)
    with PushBack_B_props [OF assms(1), of dflt mv ov x] assms(2) show ?thesis by auto
  next
    case (Slot i)
    with assms(2) True PushBack_B_slot_full [of v dflt mv ov i] show ?thesis by simp
  qed
qed

lemma Insert_A_valid:
  assumes "valid v" "Insert_A dflt mv ov p a v = Inr (q, w)"
  shows "valid w"
proof -
  have r: "0 \<le> to_int p \<and> to_int p \<le> int (sv_size v)"
    using assms(2) Insert_A_Inl [of p v dflt mv ov a] by fastforce
  show ?thesis
  proof (cases a)
    case (Outside x)
    with Insert_A_at [OF assms(1), of p dflt mv ov x] assms(2) r show ?thesis by auto
  next
    case (Slot i)
    have room: "sv_size v \<noteq> sv_capacity v"
      using assms(2) Slot Insert_A_slot_full [of v dflt mv ov p i] by auto
    from assms(2) Slot room r obtain d where
      d: "assign_value ov mv False (nat (to_int p)) (Slot i)
            (map_option (std_move_backward mv (nat (to_int p)) (sv_size v) (sv_size v + 1))
               (sv_data v)) = Inr d"
        "w = v\<lparr>sv_data := d, sv_size := Suc (sv_size v)\<rparr>"
      by (auto simp: Insert_A_def Let_def split: sum.splits)
    from assign_value_length [OF d(1)] have "length (Get d) = length (Get (sv_data v))"
      by (simp add: length_Get_map_option)
    then show ?thesis using assms(1) room by (simp add: d(2) valid_def)
  qed
qed

lemma Insert_B_valid:
  assumes "valid v" "Insert_B dflt mv ov p a v = Inr (q, w)"
  shows "valid w"
proof (cases "sv_size v = sv_capacity v")
  case False
  with assms Insert_A_valid show ?thesis by (simp add: Insert_B_room_eq)
next
  case True
  have r: "0 \<le> to_int p \<and> to_int p \<le> int (sv_size v)"
    using assms(2) Insert_B_Inl [of p v dflt mv ov a] by fastforce
  show ?thesis
  proof (cases a)
    case (Outside x)
    with Insert_B_at [OF assms(1), of p dflt mv ov x] assms(2) r show ?thesis by auto
  next
    case (Slot i)
    with assms(2) True Insert_B_slot_full [of v dflt mv ov p i] show ?thesis by simp
  qed
qed

lemma Erase_A_valid:
  assumes "valid v" "Erase_A mv p v = Inr (q, w)"
  shows "valid w"
proof -
  have "0 \<le> to_int p \<and> to_int p < int (sv_size v)"
    using assms(2) Erase_A_Inl [of p v mv] by fastforce
  with Erase_A_at [OF assms(1), of p mv] assms(2) show ?thesis by auto
qed

lemma Erase_B_valid:
  assumes "valid v" "Erase_B mv p v = Inr (q, w)"
  shows "valid w"
  using assms Erase_A_valid by (simp add: Erase_B_eq)

lemma valid_Clear: "valid v \<Longrightarrow> valid (Clear v)"
  by (simp add: valid_def Clear_def)

lemma valid_PopBack: "valid v \<Longrightarrow> valid (PopBack v)"
  by (auto simp: valid_def PopBack_def)

lemma valid_reserve_A: "valid (SimpleVector_reserve_A dflt n)"
  using Reserve_A_props [OF valid_default, of dflt n] by (simp add: SimpleVector_reserve_A_def)

lemma valid_reserve_B: "valid (SimpleVector_reserve_B dflt n)"
  using Reserve_B_props [OF valid_default, of dflt n] by (simp add: SimpleVector_reserve_B_def)

lemma valid_fill_A: "valid (SimpleVector_fill_A dflt n x)"
  by (simp add: SimpleVector_fill_A_def SimpleVector_size_def valid_def Let_def
      length_Get_map_option)

lemma valid_fill_B: "valid (SimpleVector_fill_B dflt n x)"
  by (simp add: SimpleVector_fill_B_def ArrayPtr_fill_def valid_def)

lemma valid_init_A: "valid (SimpleVector_init_A dflt init)"
  by (simp add: SimpleVector_init_A_def SimpleVector_size_def valid_def Let_def
      length_Get_map_option)

lemma valid_init_B: "valid (SimpleVector_init_B dflt init)"
  by (simp add: SimpleVector_init_B_def ArrayPtr_init_def valid_def)

lemma live_fill_A: "live (SimpleVector_fill_A dflt n x) = replicate n x"
proof (cases "n = 0")
  case True
  then show ?thesis
    by (simp add: SimpleVector_fill_A_def SimpleVector_size_def live_def Let_def)
next
  case False
  then show ?thesis
    by (simp add: SimpleVector_fill_A_def SimpleVector_size_def live_def Let_def
        ArrayPtr_size_def std_fill_eq)
qed

lemma live_fill_B: "live (SimpleVector_fill_B dflt n x) = replicate n x"
proof (cases "n = 0")
  case True
  then show ?thesis by (simp add: SimpleVector_fill_B_def live_def ArrayPtr_fill_def)
next
  case False
  then show ?thesis
    by (simp add: SimpleVector_fill_B_def live_def ArrayPtr_fill_def std_fill_eq)
qed

lemma init_loop_eq: "init_loop init 0 (replicate (length init) dflt) = init"
  by (intro nth_equalityI) (simp_all add: nth_init_loop)

lemma std_copy_all:
  "std_copy init 0 (length init) 0 (replicate (length init) dflt) = init"
  by (intro nth_equalityI) (simp_all add: nth_std_copy)

lemma live_init_A: "live (SimpleVector_init_A dflt init) = init"
proof (cases "init = []")
  case True
  then show ?thesis
    by (simp add: SimpleVector_init_A_def SimpleVector_size_def live_def Let_def)
next
  case False
  then show ?thesis
    by (simp add: SimpleVector_init_A_def SimpleVector_size_def live_def Let_def
        ArrayPtr_size_def std_copy_all)
qed

lemma live_init_B: "live (SimpleVector_init_B dflt init) = init"
  by (simp add: SimpleVector_init_B_def live_def ArrayPtr_init_def init_loop_eq)

lemma all_valid_CopyAndSwap: "all_valid s \<Longrightarrow> all_valid (CopyAndSwap dflt this other s)"
  unfolding all_valid_def
proof
  fix r
  assume a: "\<forall>r. valid (s r)"
  show "valid (CopyAndSwap dflt this other s r)"
  proof (cases "r = this")
    case True
    with a CopyAndSwap_props(4) [where s = s and other = other and this = this and dflt = dflt]
    show ?thesis by simp
  next
    case False
    with a show ?thesis by (simp add: CopyAndSwap_frame)
  qed
qed

lemma all_valid_MoveFrom: "all_valid s \<Longrightarrow> all_valid (MoveFrom this other s)"
  by (cases "this = other") (simp_all add: MoveFrom_self MoveFrom_distinct all_valid_def)

lemma all_valid_swap_sv: "all_valid s \<Longrightarrow> all_valid (swap_sv this other s)"
  by (cases "this = other") (simp_all add: swap_sv_self swap_sv_distinct all_valid_def)

lemma all_valid_upd: "all_valid s \<Longrightarrow> valid v \<Longrightarrow> all_valid (s(r := v))"
  by (simp add: all_valid_def)


section \<open>The two variants, call by call\<close>

lemma rel_refl: "valid a \<Longrightarrow> rel a a"
  by (simp add: rel_def)

lemma rel_default [simp]: "rel SimpleVector_default SimpleVector_default"
  by (simp add: rel_refl)

lemma Reserve_A_capacity:
  "sv_capacity (Reserve_A dflt n v)
     = (if sv_capacity v \<noteq> 0 \<and> n \<le> sv_capacity v then sv_capacity v else max n 1)"
  by (auto simp: Reserve_A_def Let_def)

lemma Reserve_B_capacity:
  "sv_capacity (Reserve_B dflt n v) = (if n \<le> sv_capacity v then sv_capacity v else n)"
  by (auto simp: Reserve_B_def Let_def)

lemma rel_Reserve:
  assumes "rel a b"
  shows "rel (Reserve_A dflt n a) (Reserve_B dflt n b)"
proof -
  from assms have v: "valid a" "valid b" by (simp_all add: rel_def)
  then have le: "sv_size a \<le> sv_capacity a" "sv_size b \<le> sv_capacity b"
    by (simp_all add: valid_def)
  show ?thesis
    using assms le Reserve_A_props [OF v(1), of dflt n] Reserve_B_props [OF v(2), of dflt n]
    unfolding rel_def Reserve_A_capacity Reserve_B_capacity
    by (auto simp: max_def)
qed

lemma rel_Resize:
  assumes "rel a b"
  shows "rel (Resize_A dflt n a) (Resize_B dflt n b)"
proof -
  from assms have v: "valid a" "valid b" by (simp_all add: rel_def)
  then have le: "sv_size a \<le> sv_capacity a" "sv_size b \<le> sv_capacity b"
    by (simp_all add: valid_def)
  show ?thesis
    using assms le Resize_A_props [OF v(1), of dflt n] Resize_B_props [OF v(2), of dflt n]
    unfolding rel_def by (auto simp: max_def)
qed

lemma rel_designates: "rel a b \<Longrightarrow> designates x a = designates x b"
  by (cases x) (simp_all add: designates_def rel_def)

lemma rel_element_capacity: "rel a b \<Longrightarrow> i < sv_size a \<Longrightarrow> sv_capacity a = sv_capacity b"
  by (auto simp: rel_def)

lemma rel_PushBack:
  assumes "rel a b" "designates x a"
  shows "(PushBack_A dflt mv ov x a = Inl UndefinedBehaviour \<and>
          PushBack_B dflt mv ov x b = Inl UndefinedBehaviour) \<or>
         (\<exists>wa wb. PushBack_A dflt mv ov x a = Inr wa \<and> PushBack_B dflt mv ov x b = Inr wb
            \<and> rel wa wb)"
proof -
  from assms(1) have v: "valid a" "valid b" and s: "sv_size a = sv_size b"
    and l: "live a = live b"
    by (simp_all add: rel_def)
  then have le: "sv_size a \<le> sv_capacity a" "sv_size b \<le> sv_capacity b"
    by (simp_all add: valid_def)
  show ?thesis
  proof (cases x)
    case (Outside y)
    from PushBack_A_props [OF v(1), of dflt mv ov y] obtain wa where
      wa: "PushBack_A dflt mv ov (Outside y) a = Inr wa" "sv_size wa = Suc (sv_size a)"
        "live wa = live a @ [y]" "valid wa"
        "sv_capacity wa
          = (if sv_size a = sv_capacity a then max 1 (sv_capacity a * 2) else sv_capacity a)"
      by blast
    from PushBack_B_props [OF v(2), of dflt mv ov y] obtain wb where
      wb: "PushBack_B dflt mv ov (Outside y) b = Inr wb" "sv_size wb = Suc (sv_size b)"
        "live wb = live b @ [y]" "valid wb"
        "sv_capacity wb
          = (if sv_size b = sv_capacity b then max 1 (sv_capacity b * 2) else sv_capacity b)"
      by blast
    have "rel wa wb"
      using assms(1) le wa(2-5) wb(2-5) unfolding rel_def by (auto simp: max_def)
    with wa(1) wb(1) Outside show ?thesis by blast
  next
    case (Slot i)
    with assms(2) s have i: "i < sv_size a" "i < sv_size b" by (simp_all add: designates_def)
    note c = rel_element_capacity [OF assms(1) i(1)]
    show ?thesis
    proof (cases "sv_size a = sv_capacity a")
      case True
      then have "sv_size b = sv_capacity b" using s c by simp
      with True Slot show ?thesis by (simp add: PushBack_A_slot_full PushBack_B_slot_full)
    next
      case False
      then have fb: "sv_size b \<noteq> sv_capacity b" using s c by simp
      from PushBack_A_slot_room [OF v(1) False i(1), of dflt mv ov] obtain wa where
        wa: "PushBack_A dflt mv ov (Slot i) a = Inr wa" "sv_capacity wa = sv_capacity a"
          "sv_size wa = Suc (sv_size a)"
          "live wa = (case ov of Copying \<Rightarrow> live a | Moving \<Rightarrow> (live a)[i := mv (live a ! i)])
             @ [live a ! i]"
          "valid wa" by blast
      from PushBack_A_slot_room [OF v(2) fb i(2), of dflt mv ov] obtain wb where
        wb: "PushBack_A dflt mv ov (Slot i) b = Inr wb" "sv_capacity wb = sv_capacity b"
          "sv_size wb = Suc (sv_size b)"
          "live wb = (case ov of Copying \<Rightarrow> live b | Moving \<Rightarrow> (live b)[i := mv (live b ! i)])
             @ [live b ! i]"
          "valid wb" by blast
      have "rel wa wb"
        using s c wa(2-5) [unfolded l] wb(2-5) unfolding rel_def by simp
      with wa(1) wb(1) Slot fb show ?thesis by (simp add: PushBack_B_room_eq)
    qed
  qed
qed

lemma live_shrunk: "m \<le> sv_size v \<Longrightarrow> live (v\<lparr>sv_size := m\<rparr>) = take m (live v)"
  by (simp add: live_def min_def)

lemma rel_shrunk:
  assumes "rel a b" "m \<le> sv_size a"
  shows "rel (a\<lparr>sv_size := m\<rparr>) (b\<lparr>sv_size := m\<rparr>)"
proof -
  from assms have m: "m \<le> sv_size b" by (simp add: rel_def)
  show ?thesis
    using assms live_shrunk [OF assms(2)] live_shrunk [OF m]
    unfolding rel_def by (auto simp: valid_def)
qed

lemma rel_Clear: "rel a b \<Longrightarrow> rel (Clear a) (Clear b)"
  using rel_shrunk [of a b 0] by (simp add: Clear_def)

lemma rel_PopBack: "rel a b \<Longrightarrow> rel (PopBack a) (PopBack b)"
  using rel_shrunk [of a b "sv_size a - 1"] rel_shrunk [of a b 0]
  by (auto simp: PopBack_def rel_def)

lemma rel_Insert:
  assumes "rel a b" "designates x a"
  shows "(Insert_A dflt mv ov p x a = Inl UndefinedBehaviour \<and>
          Insert_B dflt mv ov p x b = Inl UndefinedBehaviour) \<or>
         (\<exists>q wa wb. Insert_A dflt mv ov p x a = Inr (q, wa) \<and>
            Insert_B dflt mv ov p x b = Inr (q, wb) \<and> rel wa wb)"
proof -
  from assms(1) have v: "valid a" "valid b" and s: "sv_size a = sv_size b"
    and l: "live a = live b"
    by (simp_all add: rel_def)
  show ?thesis
  proof (cases "to_int p < 0 \<or> int (sv_size a) < to_int p")
    case True
    then show ?thesis using s by (simp add: Insert_A_Inl Insert_B_Inl)
  next
    case False
    then have r: "0 \<le> to_int p" "to_int p \<le> int (sv_size a)" "to_int p \<le> int (sv_size b)"
      using s by simp_all
    show ?thesis
    proof (cases x)
      case (Outside y)
      from Insert_A_at [OF v(1) r(1,2), of dflt mv ov y] obtain wa where
        wa: "Insert_A dflt mv ov p (Outside y) a = Inr (nat (to_int p), wa)"
          "live wa = take (nat (to_int p)) (live a) @ [y] @ drop (nat (to_int p)) (live a)"
          "sv_size wa = Suc (sv_size a)"
          "sv_capacity wa
            = (if sv_size a = sv_capacity a then max 1 (sv_capacity a * 2) else sv_capacity a)"
          "valid wa" by blast
      from Insert_B_at [OF v(2) r(1,3), of dflt mv ov y] obtain wb where
        wb: "Insert_B dflt mv ov p (Outside y) b = Inr (nat (to_int p), wb)"
          "live wb = take (nat (to_int p)) (live b) @ [y] @ drop (nat (to_int p)) (live b)"
          "sv_size wb = Suc (sv_size b)"
          "sv_capacity wb
            = (if sv_size b = sv_capacity b then max 1 (sv_capacity b * 2) else sv_capacity b)"
          "valid wb" by blast
      have "rel wa wb"
        using assms(1) wa(2-5) wb(2-5) unfolding rel_def by (auto simp: max_def)
      with wa(1) wb(1) Outside show ?thesis by blast
    next
      case (Slot i)
      with assms(2) s have i: "i < sv_size a" "i < sv_size b" by (simp_all add: designates_def)
      note c = rel_element_capacity [OF assms(1) i(1)]
      show ?thesis
      proof (cases "sv_size a = sv_capacity a")
        case True
        then have "sv_size b = sv_capacity b" using s c by simp
        with True Slot show ?thesis by (simp add: Insert_A_slot_full Insert_B_slot_full)
      next
        case False
        then have fb: "sv_size b \<noteq> sv_capacity b" using s c by simp
        define q where "q = nat (to_int p)"
        define e where "e = (if i < q then live a ! i else if i = q then mv (live a ! q)
                     else live a ! (i - 1))"
        have e': "e = (if i < q then live b ! i else if i = q then mv (live b ! q)
                     else live b ! (i - 1))"
          by (simp add: e_def l)
        from Insert_A_slot_room [where mv = mv and ov = ov and dflt = dflt,
            OF v(1) False r(1,2) i(1) q_def e_def]
        obtain wa where
          wa: "Insert_A dflt mv ov p (Slot i) a = Inr (q, wa)"
            "live wa = (case ov of
                   Copying \<Rightarrow> take q (live a) @ [e] @ drop q (live a)
                 | Moving \<Rightarrow> (take q (live a) @ [e] @ drop q (live a))[i := mv e])"
            "sv_size wa = Suc (sv_size a)" "sv_capacity wa = sv_capacity a" "valid wa"
          by blast
        from Insert_A_slot_room [where mv = mv and ov = ov and dflt = dflt,
            OF v(2) fb r(1,3) i(2) q_def e']
        obtain wb where
          wb: "Insert_A dflt mv ov p (Slot i) b = Inr (q, wb)"
            "live wb = (case ov of
                   Copying \<Rightarrow> take q (live b) @ [e] @ drop q (live b)
                 | Moving \<Rightarrow> (take q (live b) @ [e] @ drop q (live b))[i := mv e])"
            "sv_size wb = Suc (sv_size b)" "sv_capacity wb = sv_capacity b" "valid wb"
          by blast
        have "rel wa wb"
          using s c wa(2-5) [unfolded l] wb(2-5) unfolding rel_def by simp
        with wa(1) wb(1) Slot fb show ?thesis by (simp add: Insert_B_room_eq)
      qed
    qed
  qed
qed

lemma rel_Erase:
  assumes "rel a b"
  shows "(Erase_A mv p a = Inl UndefinedBehaviour \<and> Erase_B mv p b = Inl UndefinedBehaviour) \<or>
         (\<exists>q wa wb. Erase_A mv p a = Inr (q, wa) \<and> Erase_B mv p b = Inr (q, wb) \<and> rel wa wb)"
proof -
  from assms have v: "valid a" "valid b" and s: "sv_size a = sv_size b"
    by (simp_all add: rel_def)
  show ?thesis
  proof (cases "to_int p < 0 \<or> int (sv_size a) \<le> to_int p")
    case True
    then show ?thesis using s by (simp add: Erase_A_Inl Erase_B_eq)
  next
    case False
    then have r: "0 \<le> to_int p" "to_int p < int (sv_size a)" "to_int p < int (sv_size b)"
      using s by simp_all
    from Erase_A_at [OF v(1) r(1,2), of mv] obtain wa where
      wa: "Erase_A mv p a = Inr (nat (to_int p), wa)"
        "live wa = take (nat (to_int p)) (live a) @ drop (Suc (nat (to_int p))) (live a)"
        "sv_size wa = sv_size a - 1" "sv_capacity wa = sv_capacity a" "valid wa" by blast
    from Erase_A_at [OF v(2) r(1,3), of mv] obtain wb where
      wb: "Erase_A mv p b = Inr (nat (to_int p), wb)"
        "live wb = take (nat (to_int p)) (live b) @ drop (Suc (nat (to_int p))) (live b)"
        "sv_size wb = sv_size b - 1" "sv_capacity wb = sv_capacity b" "valid wb" by blast
    have "rel wa wb"
      using assms r wa(2-5) wb(2-5) unfolding rel_def by auto
    with wa(1) wb(1) show ?thesis by (simp add: Erase_B_eq)
  qed
qed

lemma rel_At: "rel a b \<Longrightarrow> At i a = At i b"
  by (auto simp: rel_def At_def ArrayPtr_index_def valid_def live_def
      dest: arg_cong [where f = "\<lambda>xs. xs ! i"])

lemma rel_index: "rel a b \<Longrightarrow> i < sv_size a \<Longrightarrow> index_op i a = index_op i b"
  using rel_At [of a b i] by (simp add: At_def index_op_def rel_def)

lemma rel_ctor_reserve: "rel (SimpleVector_reserve_A dflt n) (SimpleVector_reserve_B dflt n)"
  using rel_Reserve [OF rel_default, of dflt n]
  by (simp add: SimpleVector_reserve_A_def SimpleVector_reserve_B_def)

lemma sizes_fill:
  "sv_size (SimpleVector_fill_A dflt n x) = n" "sv_capacity (SimpleVector_fill_A dflt n x) = n"
  "sv_size (SimpleVector_fill_B dflt n x) = n" "sv_capacity (SimpleVector_fill_B dflt n x) = n"
  by (simp_all add: SimpleVector_fill_A_def SimpleVector_fill_B_def SimpleVector_size_def Let_def)

lemma sizes_init:
  "sv_size (SimpleVector_init_A dflt xs) = length xs"
  "sv_capacity (SimpleVector_init_A dflt xs) = length xs"
  "sv_size (SimpleVector_init_B dflt xs) = length xs"
  "sv_capacity (SimpleVector_init_B dflt xs) = length xs"
  by (simp_all add: SimpleVector_init_A_def SimpleVector_init_B_def SimpleVector_size_def Let_def)

lemma rel_ctor_fill: "rel (SimpleVector_fill_A dflt n x) (SimpleVector_fill_B dflt n x)"
  by (simp add: rel_def valid_fill_A valid_fill_B live_fill_A live_fill_B sizes_fill)

lemma rel_ctor_init: "rel (SimpleVector_init_A dflt xs) (SimpleVector_init_B dflt xs)"
  by (simp add: rel_def valid_init_A valid_init_B live_init_A live_init_B sizes_init)

lemma rel_objects_upd: "rel_objects sa sb \<Longrightarrow> rel a b \<Longrightarrow> rel_objects (sa(r := a)) (sb(r := b))"
  by (simp add: rel_objects_def)

lemma rel_objects_CopyAndSwap:
  assumes "rel_objects sa sb"
  shows "rel_objects (CopyAndSwap dflt this other sa) (CopyAndSwap dflt this other sb)"
  unfolding rel_objects_def
proof
  fix r
  from assms have o: "rel (sa other) (sb other)" by (simp add: rel_objects_def)
  then have v: "valid (sa other)" "valid (sb other)" by (simp_all add: rel_def)
  show "rel (CopyAndSwap dflt this other sa r) (CopyAndSwap dflt this other sb r)"
  proof (cases "r = this")
    case True
    show ?thesis
      using o CopyAndSwap_props [where s = sa and other = other and this = this and dflt = dflt,
          OF v(1)]
        CopyAndSwap_props [where s = sb and other = other and this = this and dflt = dflt,
          OF v(2)]
      unfolding True rel_def by simp
  next
    case False
    with assms show ?thesis by (simp add: CopyAndSwap_frame rel_objects_def)
  qed
qed

lemma rel_objects_MoveFrom:
  "rel_objects sa sb \<Longrightarrow> rel_objects (MoveFrom this other sa) (MoveFrom this other sb)"
  by (cases "this = other") (simp_all add: MoveFrom_self MoveFrom_distinct rel_objects_def)

lemma rel_objects_swap_sv:
  "rel_objects sa sb \<Longrightarrow> rel_objects (swap_sv this other sa) (swap_sv this other sb)"
  by (cases "this = other") (simp_all add: swap_sv_self swap_sv_distinct rel_objects_def)

lemma rel_live: "rel a b \<Longrightarrow> live a = live b"
  by (simp add: rel_def)

lemma rel_size: "rel a b \<Longrightarrow> sv_size a = sv_size b"
  by (simp add: rel_def)

lemma rel_capacity:
  "rel a b \<Longrightarrow> sv_capacity a = sv_capacity b \<or> (sv_capacity a = 1 \<and> sv_capacity b = 0)"
  by (auto simp: rel_def)

lemma agree_refl [simp]: "agree x x"
  by (cases x) simp_all

lemma agree_stops: "agree x y \<Longrightarrow> stops x = stops y"
  by (cases x; cases y) auto

lemma rel_objectsD: "rel_objects sa sb \<Longrightarrow> rel (sa r) (sb r)"
  by (simp add: rel_objects_def)

lemma step_rel:
  assumes "rel_objects sa sb"
  shows "agree (fst (step Variant_A dflt mv lt c sa)) (fst (step Variant_B dflt mv lt c sb)) \<and>
         rel_objects (snd (step Variant_A dflt mv lt c sa)) (snd (step Variant_B dflt mv lt c sb))"
proof (cases c)
  case (Construct_default r)
  with assms show ?thesis by (simp add: rel_objects_upd)
next
  case (Construct_reserve r n)
  with assms show ?thesis
    by (simp add: rel_objects_upd SimpleVector_reserve_of_def rel_ctor_reserve)
next
  case (Construct_size r n)
  with assms show ?thesis by (simp add: rel_objects_upd rel_refl)
next
  case (Construct_fill r n x)
  with assms show ?thesis
    by (simp add: rel_objects_upd SimpleVector_fill_of_def rel_ctor_fill)
next
  case (Construct_init r xs)
  with assms show ?thesis
    by (simp add: rel_objects_upd SimpleVector_init_of_def rel_ctor_init)
next
  case (Construct_copy r r')
  with assms show ?thesis
    by (simp add: copy_construct_def rel_objects_CopyAndSwap rel_objects_upd)
next
  case (Construct_move r r')
  with assms show ?thesis
    by (simp add: move_construct_def rel_objects_MoveFrom rel_objects_upd)
next
  case (Assign_copy r r')
  with assms show ?thesis by (simp add: copy_assign_def rel_objects_CopyAndSwap)
next
  case (Assign_move r r')
  with assms show ?thesis by (simp add: move_assign_def rel_objects_MoveFrom)
next
  case (Call_swap r r')
  with assms show ?thesis by (simp add: rel_objects_swap_sv)
next
  case (Call_GetSize r)
  with assms rel_size [OF rel_objectsD [OF assms, of r]] show ?thesis
    by (simp add: GetSize_def)
next
  case (Call_GetCapacity r)
  with assms rel_capacity [OF rel_objectsD [OF assms, of r]] show ?thesis
    by (auto simp: GetCapacity_def)
next
  case (Call_IsEmpty r)
  with assms rel_size [OF rel_objectsD [OF assms, of r]] show ?thesis
    by (simp add: IsEmpty_def)
next
  case (Call_index r i)
  with assms rel_size [OF rel_objectsD [OF assms, of r]]
    rel_index [OF rel_objectsD [OF assms, of r], of i]
  show ?thesis by (auto split: sum.splits)
next
  case (Call_At r i)
  with assms rel_At [OF rel_objectsD [OF assms, of r], of i]
  show ?thesis by (auto split: sum.splits)
next
  case (Call_Clear r)
  with assms show ?thesis by (simp add: rel_objects_upd rel_Clear rel_objectsD)
next
  case (Call_Resize r n)
  with assms show ?thesis by (simp add: rel_objects_upd rel_Resize rel_objectsD Resize_of_def)
next
  case (Call_Reserve r n)
  with assms show ?thesis by (simp add: rel_objects_upd rel_Reserve rel_objectsD Reserve_of_def)
next
  case (Call_PushBack r ov x)
  note d = rel_designates [OF rel_objectsD [OF assms, of r], of x]
  show ?thesis
  proof (cases "designates x (sa r)")
    case True
    with Call_PushBack assms d rel_PushBack [OF rel_objectsD [OF assms, of r] True, of dflt mv ov]
    show ?thesis by (auto simp: PushBack_of_def rel_objects_upd)
  next
    case False
    with Call_PushBack assms d show ?thesis by simp
  qed
next
  case (Call_Insert r ov p x)
  note d = rel_designates [OF rel_objectsD [OF assms, of r], of x]
  show ?thesis
  proof (cases "designates x (sa r)")
    case True
    with Call_Insert assms d rel_Insert [OF rel_objectsD [OF assms, of r] True, of dflt mv ov p]
    show ?thesis by (auto simp: Insert_of_def rel_objects_upd)
  next
    case False
    with Call_Insert assms d show ?thesis by simp
  qed
next
  case (Call_Erase r p)
  with assms rel_Erase [OF rel_objectsD [OF assms, of r], of mv p]
  show ?thesis by (auto simp: Erase_of_def rel_objects_upd)
next
  case (Call_PopBack r)
  with assms show ?thesis by (simp add: rel_objects_upd rel_PopBack rel_objectsD)
next
  case (Call_elements r)
  with assms rel_live [OF rel_objectsD [OF assms, of r]] show ?thesis by simp
next
  case (Call_eq r r')
  with assms rel_live [OF rel_objectsD [OF assms, of r]] rel_live [OF rel_objectsD [OF assms, of r']]
  show ?thesis by (simp add: eq_op_def)
next
  case (Call_ne r r')
  with assms rel_live [OF rel_objectsD [OF assms, of r]] rel_live [OF rel_objectsD [OF assms, of r']]
  show ?thesis by (simp add: ne_op_def eq_op_def)
next
  case (Call_lt r r')
  with assms rel_live [OF rel_objectsD [OF assms, of r]] rel_live [OF rel_objectsD [OF assms, of r']]
  show ?thesis by (simp add: lt_op_def)
next
  case (Call_gt r r')
  with assms rel_live [OF rel_objectsD [OF assms, of r]] rel_live [OF rel_objectsD [OF assms, of r']]
  show ?thesis by (simp add: gt_op_def lt_op_def)
next
  case (Call_le r r')
  with assms rel_live [OF rel_objectsD [OF assms, of r]] rel_live [OF rel_objectsD [OF assms, of r']]
  show ?thesis by (simp add: le_op_def gt_op_def lt_op_def)
next
  case (Call_ge r r')
  with assms rel_live [OF rel_objectsD [OF assms, of r]] rel_live [OF rel_objectsD [OF assms, of r']]
  show ?thesis by (simp add: ge_op_def gt_op_def lt_op_def)
qed

lemma run_rel:
  "rel_objects sa sb \<Longrightarrow>
   list_all2 agree (run Variant_A dflt mv lt cs sa) (run Variant_B dflt mv lt cs sb)"
proof (induction cs arbitrary: sa sb)
  case Nil
  show ?case by simp
next
  case (Cons c cs)
  obtain oa sa' where a: "step Variant_A dflt mv lt c sa = (oa, sa')" by (cases "step Variant_A dflt mv lt c sa")
  obtain ob sb' where b: "step Variant_B dflt mv lt c sb = (ob, sb')" by (cases "step Variant_B dflt mv lt c sb")
  from step_rel [OF Cons.prems, of dflt mv lt c] a b
  have r: "agree oa ob" "rel_objects sa' sb'" by simp_all
  from Cons.IH [OF r(2)] r(1) agree_stops [OF r(1)] a b show ?case by simp
qed

lemma rel_objects_no_objects: "rel_objects no_objects no_objects"
  by (simp add: rel_objects_def no_objects_def)

lemmas eval_simps =
  no_objects_def
  SimpleVector_default_def SimpleVector_size_def
  Reserve_of_def Resize_of_def PushBack_of_def Insert_of_def Erase_of_def
  Reserve_A_def Reserve_B_def Expand_B_def Resize_A_def Resize_B_def
  PushBack_A_def PushBack_B_def designates_def assign_value_def
  Reserve_A_deletes_def Reserve_B_deletes_def Expand_B_deletes_def
  SimpleVector_reserve_of_def SimpleVector_reserve_A_def SimpleVector_reserve_B_def
  ArrayPtr_size_def ArrayPtr_assign_def
  GetSize_def GetCapacity_def live_def Let_def

lemma converge_A: "run Variant_A 0 id (<) converge no_objects = [Done, Cap 1, Done, Cap 1, Elems [7]]"
  by (simp add: converge_def eval_simps)

lemma converge_B: "run Variant_B 0 id (<) converge no_objects = [Done, Cap 0, Done, Cap 1, Elems [7]]"
  by (simp add: converge_def eval_simps)

lemma aliased_A:
  "run Variant_A 0 id (<) aliased no_objects
     = [Done, Done, Done, Elems [7, 7], Raised UndefinedBehaviour]"
  by (simp add: aliased_def eval_simps numeral_2_eq_2)

lemma aliased_B:
  "run Variant_B 0 id (<) aliased no_objects
     = [Done, Done, Done, Elems [7, 7], Raised UndefinedBehaviour]"
  by (simp add: aliased_def eval_simps numeral_2_eq_2)


section \<open>Checked access\<close>

text \<open>
  C1. \<open>At(i)\<close> fails with \<open>OutOfRange\<close> exactly when \<open>i \<ge> size\<close> (the bound is the size,
  not the capacity); for \<open>i < size\<close> it returns what \<open>operator[](i)\<close> returns, and in a
  vector that satisfies the class invariant that is the live element at index \<open>i\<close>.
\<close>

theorem At_checked:
  "(At i v = Inl OutOfRange \<longleftrightarrow> sv_size v \<le> i) \<and>
   (i < sv_size v \<longrightarrow> At i v = index_op i v) \<and>
   (valid v \<and> i < sv_size v \<longrightarrow> At i v = Inr (live v ! i))"
  by (simp add: At_def index_op_def ArrayPtr_index_def valid_def live_def)

theorem At_checked_witness:
  "At 1 \<lparr>sv_data = Some [10, 20, 30 :: int], sv_size = 2, sv_capacity = 3\<rparr> = Inr 20 \<and>
   At 2 \<lparr>sv_data = Some [10, 20, 30 :: int], sv_size = 2, sv_capacity = 3\<rparr> = Inl OutOfRange \<and>
   index_op 2 \<lparr>sv_data = Some [10, 20, 30 :: int], sv_size = 2, sv_capacity = 3\<rparr> = Inr 30"
  using At_checked [of 1 "\<lparr>sv_data = Some [10, 20, 30 :: int], sv_size = 2, sv_capacity = 3\<rparr>"]
    At_checked [of 2 "\<lparr>sv_data = Some [10, 20, 30 :: int], sv_size = 2, sv_capacity = 3\<rparr>"]
  by (simp add: valid_def live_def Get_def index_op_def ArrayPtr_index_def)


section \<open>Reserve\<close>

text \<open>
  C3, as the code has it. On a vector that satisfies the class invariant,
  \<open>Reserve(n)\<close> leaves the vector as it is when \<open>n \<le> capacity\<close>, in variant A only if
  the capacity is not 0; when \<open>n > capacity\<close> both variants build a block of exactly
  \<open>n\<close> slots and set the capacity to \<open>n\<close>; variant A on a vector of capacity 0, asked
  for 0, builds a block of one slot. In every case the size is unchanged, the capacity
  does not decrease and is at least \<open>n\<close> afterwards, and the live elements are the same,
  in order.
\<close>

theorem Reserve_spec:
  assumes "valid v"
  shows
    "(n \<le> sv_capacity v \<and> sv_capacity v \<noteq> 0 \<longrightarrow> Reserve_A dflt n v = v) \<and>
     (n \<le> sv_capacity v \<longrightarrow> Reserve_B dflt n v = v) \<and>
     (sv_capacity v < n \<longrightarrow>
        sv_capacity (Reserve_A dflt n v) = n \<and> length (Get (sv_data (Reserve_A dflt n v))) = n \<and>
        sv_capacity (Reserve_B dflt n v) = n \<and> length (Get (sv_data (Reserve_B dflt n v))) = n) \<and>
     (sv_capacity v = 0 \<and> n = 0 \<longrightarrow>
        sv_capacity (Reserve_A dflt n v) = 1 \<and> length (Get (sv_data (Reserve_A dflt n v))) = 1) \<and>
     sv_size (Reserve_A dflt n v) = sv_size v \<and> sv_size (Reserve_B dflt n v) = sv_size v \<and>
     sv_capacity v \<le> sv_capacity (Reserve_A dflt n v) \<and>
     sv_capacity v \<le> sv_capacity (Reserve_B dflt n v) \<and>
     n \<le> sv_capacity (Reserve_A dflt n v) \<and> n \<le> sv_capacity (Reserve_B dflt n v) \<and>
     live (Reserve_A dflt n v) = live v \<and> live (Reserve_B dflt n v) = live v"
  using Reserve_A_props [OF assms, where dflt = dflt and n = n]
    Reserve_B_props [OF assms, where dflt = dflt and n = n]
    Reserve_A_exact [where v = v and dflt = dflt and n = n]
    Reserve_B_exact [where v = v and dflt = dflt and n = n]
  by (auto simp: Reserve_A_noop Reserve_B_noop)

theorem Reserve_spec_witness:
  "valid v123 \<and> sv_capacity (Reserve_A 0 10 v123) = 10 \<and> sv_capacity (Reserve_B 0 10 v123) = 10 \<and>
   live (Reserve_A 0 10 v123) = [1, 2, 3] \<and> live (Reserve_B 0 10 v123) = [1, 2, 3] \<and>
   Reserve_A 0 2 v123 = v123 \<and> Reserve_B 0 2 v123 = v123"
proof -
  have v: "valid v123" by (simp add: v123_def valid_def)
  have l: "live v123 = [1, 2, 3]" by (simp add: v123_def live_def)
  have c: "sv_capacity v123 = 4" by (simp add: v123_def)
  show ?thesis
    using v l c Reserve_spec [OF v, of 10 0] Reserve_spec [OF v, of 2 0] by simp
qed

text \<open>
  C3 as stated fails in variant A: \<open>Reserve(0)\<close> on a default-constructed vector
  (\<open>0 \<le> capacity = 0\<close>) is not a no-op, it allocates one slot and sets the capacity to 1.
\<close>

theorem Reserve_noop_counterexample:
  "sv_capacity (SimpleVector_default :: int SimpleVector) = 0 \<and>
   Reserve_A 0 0 (SimpleVector_default :: int SimpleVector)
     = \<lparr>sv_data = Some [0], sv_size = 0, sv_capacity = 1\<rparr> \<and>
   Reserve_A 0 0 (SimpleVector_default :: int SimpleVector) \<noteq> SimpleVector_default"
  by (simp add: Reserve_A_def SimpleVector_default_def ArrayPtr_size_def)


section \<open>PushBack\<close>

text \<open>
  C2 at its failing input. \<^verbatim>\<open>SimpleVector<int> v{1, 2, 3, 4}; v.PushBack(v[0]);\<close> The vector
  is full, so \<open>PushBack\<close> first calls \<open>Reserve(8)\<close> (variant B through \<open>Expand\<close>), which
  moves the elements into a new block and deletes the old one; the parameter \<open>value\<close>
  still refers to slot 0 of the deleted block when \<^verbatim>\<open>data_[size_] = value\<close> reads it:
  undefined behaviour in both variants and both overloads, where C2 has the element 1 at
  index 4. The same call with the value 1 in an object of its own gives what C2 says, and
  so does the call at an element when the vector has room, as on \<open>[1, 2, 3]\<close> with
  capacity 4 (\<open>PushBack_A_props\<close>, \<open>PushBack_B_props\<close>, \<open>PushBack_all_A_props\<close> and
  \<open>PushBack_all_B_props\<close> above give what C2 says for every argument outside the block,
  \<open>PushBack_A_slot_room\<close> for an element of a vector with room).
\<close>

theorem PushBack_reads_deleted_block:
  "v1234 = SimpleVector_init_B 0 [1, 2, 3, 4] \<and>
   sv_size v1234 = 4 \<and> sv_capacity v1234 = 4 \<and> live v1234 = [1, 2, 3, 4] \<and>
   index_op 0 v1234 = Inr 1 \<and>
   PushBack_A 0 id ov (Slot 0) v1234 = Inl UndefinedBehaviour \<and>
   PushBack_B 0 id ov (Slot 0) v1234 = Inl UndefinedBehaviour \<and>
   (\<exists>w. PushBack_A 0 id ov (Outside 1) v1234 = Inr w \<and> live w = [1, 2, 3, 4, 1] \<and>
      sv_capacity w = 8) \<and>
   (\<exists>w. PushBack_B 0 id ov (Outside 1) v1234 = Inr w \<and> live w = [1, 2, 3, 4, 1] \<and>
      sv_capacity w = 8) \<and>
   (\<exists>w. PushBack_A 0 id Copying (Slot 0) v123 = Inr w \<and> live w = [1, 2, 3, 1] \<and>
      sv_capacity w = 4) \<and>
   (\<exists>w. PushBack_B 0 id Copying (Slot 0) v123 = Inr w \<and> live w = [1, 2, 3, 1] \<and>
      sv_capacity w = 4)"
proof -
  have e: "v1234 = \<lparr>sv_data = Some [1, 2, 3, 4], sv_size = 4, sv_capacity = 4\<rparr>"
    "SimpleVector_init_B (0::int) [1, 2, 3, 4]
       = \<lparr>sv_data = Some [1, 2, 3, 4], sv_size = 4, sv_capacity = 4\<rparr>"
    using std_copy_all [of "[1, 2, 3, 4 :: int]" 0] init_loop_eq [of "[1, 2, 3, 4 :: int]" 0]
    by (simp_all add: v1234_def SimpleVector_init_A_def SimpleVector_init_B_def
        SimpleVector_size_def ArrayPtr_size_def ArrayPtr_init_def Let_def)
  have v: "valid v1234" "sv_size v1234 = sv_capacity v1234" "live v1234 = [1, 2, 3, 4]"
    "sv_size v1234 = 4" "sv_capacity v1234 = 4" "index_op 0 v1234 = Inr 1"
    by (simp_all add: e valid_def live_def index_op_def ArrayPtr_index_def)
  have u: "valid v123" "sv_size v123 \<noteq> sv_capacity v123" "0 < sv_size v123"
    "live v123 = [1, 2, 3]" "sv_capacity v123 = 4"
    by (simp_all add: v123_def valid_def live_def)
  from PushBack_A_full [OF v(1,2), of 0 id ov 1] v
  have oa: "\<exists>w. PushBack_A 0 id ov (Outside 1) v1234 = Inr w \<and> live w = [1, 2, 3, 4, 1] \<and>
      sv_capacity w = 8" by auto
  from PushBack_B_full [OF v(1,2), of 0 id ov 1] v
  have ob: "\<exists>w. PushBack_B 0 id ov (Outside 1) v1234 = Inr w \<and> live w = [1, 2, 3, 4, 1] \<and>
      sv_capacity w = 8" by auto
  from PushBack_A_slot_room [OF u(1,2,3), of 0 id Copying] u
  have ra: "\<exists>w. PushBack_A 0 id Copying (Slot 0) v123 = Inr w \<and> live w = [1, 2, 3, 1] \<and>
      sv_capacity w = 4" by auto
  then have rb: "\<exists>w. PushBack_B 0 id Copying (Slot 0) v123 = Inr w \<and> live w = [1, 2, 3, 1] \<and>
      sv_capacity w = 4" using u(2) by (simp add: PushBack_B_room_eq)
  show ?thesis
    using e v oa ob ra rb PushBack_A_slot_full [OF v(2), of 0 id ov 0]
      PushBack_B_slot_full [OF v(2), of 0 id ov 0]
    by simp
qed


section \<open>Resize\<close>

text \<open>
  C4 at its failing input. On a default-constructed vector (size 0, capacity 0, no block)
  \<open>Resize(0)\<close> has \<open>new_size \<le> size\<close>, so it ought to truncate only. Variant B does.
  Variant A goes through \<open>Reserve(0)\<close>, which allocates a block of one slot and sets the
  capacity to 1 (\<open>Resize_A_props\<close> and \<open>Resize_B_props\<close> above give all other cases, where
  both variants do what C4 says).
\<close>

theorem Resize_A_empty_allocates:
  "Resize_A (0::int) 0 SimpleVector_default = \<lparr>sv_data = Some [0], sv_size = 0, sv_capacity = 1\<rparr> \<and>
   sv_capacity (SimpleVector_default :: int SimpleVector) = 0 \<and>
   Resize_B (0::int) 0 SimpleVector_default = SimpleVector_default"
  by (simp add: Resize_A_def Resize_B_def Reserve_A_def ArrayPtr_size_def SimpleVector_default_def)


section \<open>Insert\<close>

text \<open>
  C5 at two failing inputs. On a vector of \<open>2^31\<close> elements, \<open>Insert(end(), x)\<close> has
  \<open>pos - begin() = 2^31\<close>, which \<^verbatim>\<open>int offset\<close> holds as \<open>-2^31\<close>: \<open>begin() + offset\<close> lies
  before the block, in both variants and both overloads, whatever \<open>value\<close> refers to. On
  a vector of \<open>2^32\<close> elements, \<open>Insert(end(), x)\<close> has \<open>offset = 0\<close>: \<open>x\<close> is inserted in
  front, and the iterator returned points at index 0, not at \<open>2^32\<close> (\<open>Insert_A_props\<close> and
  \<open>Insert_B_props\<close> above give what C5 says for every position below \<open>2^31\<close> and every
  \<open>value\<close> outside the block).
\<close>

theorem Insert_offset_narrowed:
  "valid big \<and> sv_size big = 2 ^ 31 \<and>
   Insert_A (CHR 0x00) id ov (2 ^ 31) a big = Inl UndefinedBehaviour \<and>
   Insert_B (CHR 0x00) id ov (2 ^ 31) a big = Inl UndefinedBehaviour \<and>
   valid bigger \<and> sv_size bigger = 2 ^ 32 \<and>
   (\<exists>w. Insert_A (CHR 0x00) id ov (2 ^ 32) (Outside (CHR ''x'')) bigger = Inr (0, w) \<and>
      live w = CHR ''x'' # live bigger) \<and>
   (\<exists>w. Insert_B (CHR 0x00) id ov (2 ^ 32) (Outside (CHR ''x'')) bigger = Inr (0, w) \<and>
      live w = CHR ''x'' # live bigger)"
proof -
  have "valid big \<and> sv_size big = 2 ^ 31 \<and> valid bigger \<and> sv_size bigger = 2 ^ 32"
    by (simp add: big_def bigger_def)
  then show ?thesis
    using Insert_A_negative [OF to_int_2_31, of "CHR 0x00" id ov a big]
      Insert_B_negative [OF to_int_2_31, of "CHR 0x00" id ov a big]
      Insert_wraps_A [of ov] Insert_wraps_B [of ov]
    by blast
qed


section \<open>Insert, then Erase\<close>

text \<open>
  C6 at its failing input: the same vector and position; \<open>Insert\<close> already has no
  defined result there, in both variants (\<open>Insert_then_Erase_A_small\<close> and
  \<open>Insert_then_Erase_B_small\<close> above give what C6 says for every position below \<open>2^31\<close>
  and every \<open>value\<close> outside the block).
\<close>

theorem Insert_then_Erase_offset_narrowed:
  "valid big \<and> sv_size big = 2 ^ 31 \<and>
   Insert_then_Erase_A (CHR 0x00) id ov (2 ^ 31) a big = Inl UndefinedBehaviour \<and>
   Insert_then_Erase_B (CHR 0x00) id ov (2 ^ 31) a big = Inl UndefinedBehaviour"
  using Insert_A_negative [OF to_int_2_31, of "CHR 0x00" id ov a big]
    Insert_B_negative [OF to_int_2_31, of "CHR 0x00" id ov a big]
  by (simp add: big_def Insert_then_Erase_A_def Insert_then_Erase_B_def)


section \<open>Moving\<close>

text \<open>
  C7. After move assignment or move construction from another object, the source has size
  0, capacity 0 and no block, and the destination has the source's former size, capacity,
  block and so element sequence.
\<close>

theorem move_spec:
  assumes "this \<noteq> other"
  shows
    "sv_size (move_assign this other s other) = 0 \<and>
     sv_capacity (move_assign this other s other) = 0 \<and>
     sv_data (move_assign this other s other) = None \<and>
     sv_size (move_assign this other s this) = sv_size (s other) \<and>
     sv_capacity (move_assign this other s this) = sv_capacity (s other) \<and>
     live (move_assign this other s this) = live (s other) \<and>
     sv_data (move_assign this other s this) = sv_data (s other) \<and>
     sv_size (move_construct this other s other) = 0 \<and>
     sv_capacity (move_construct this other s other) = 0 \<and>
     sv_data (move_construct this other s other) = None \<and>
     sv_size (move_construct this other s this) = sv_size (s other) \<and>
     sv_capacity (move_construct this other s this) = sv_capacity (s other) \<and>
     live (move_construct this other s this) = live (s other) \<and>
     sv_data (move_construct this other s this) = sv_data (s other)"
  using assms
  by (simp add: move_assign_def move_construct_def MoveFrom_distinct live_def
      SimpleVector_default_def)

theorem move_spec_witness:
  "(0::nat) \<noteq> 1 \<and>
   live (move_assign 1 0 two_objects 1) = [1, 2, 3] \<and>
   sv_capacity (move_assign 1 0 two_objects 1) = 4 \<and>
   sv_size (move_assign 1 0 two_objects 0) = 0 \<and>
   sv_capacity (move_assign 1 0 two_objects 0) = 0 \<and>
   sv_data (move_assign 1 0 two_objects 0) = None \<and>
   live (move_construct 2 0 two_objects 2) = [1, 2, 3] \<and>
   sv_data (move_construct 2 0 two_objects 0) = None"
proof -
  have n: "(1::nat) \<noteq> 0" "(2::nat) \<noteq> 0" by simp_all
  have o: "two_objects 0 = v123" by (simp add: two_objects_def)
  have l: "live v123 = [1, 2, 3]" "sv_capacity v123 = 4" by (simp_all add: v123_def live_def)
  show ?thesis
    using move_spec [OF n(1), of two_objects] move_spec [OF n(2), of two_objects] o l by simp
qed


section \<open>Self-assignment\<close>

text \<open>
  C10. Copy-assigning a vector that satisfies the class invariant to itself keeps its size
  and its element sequence and leaves it satisfying the invariant; move-assigning a vector
  to itself changes nothing, so its size, capacity and element sequence stay. With the
  blocks at addresses: the self-copy runs without undefined behaviour, its one
  \<^verbatim>\<open>delete[]\<close> frees the block the vector had before, which is allocated at that
  moment, the vector ends with a block of its own holding the same elements, and
  destroying the vector afterwards is again a deletion of an allocated block or of
  \<open>nullptr\<close>: no block is freed twice. The self-move allocates and frees nothing.
\<close>

theorem self_assignment:
  assumes "valid (s r)" and "owns h r"
  shows
    "sv_size (copy_assign dflt r r s r) = sv_size (s r) \<and>
     live (copy_assign dflt r r s r) = live (s r) \<and>
     valid (copy_assign dflt r r s r) \<and>
     move_assign r r s = s \<and>
     sv_size (move_assign r r s r) = sv_size (s r) \<and>
     sv_capacity (move_assign r r s r) = sv_capacity (s r) \<and>
     live (move_assign r r s r) = live (s r) \<and>
     (\<exists>h'. CopyAndSwap_at dflt r r h = Inr h' \<and>
        live_at h' r = live_at h r \<and>
        at_size (vecs h' r) = at_size (vecs h r) \<and>
        (\<forall>a. at_data (vecs h r) = Some a \<longrightarrow> blocks h' a = None) \<and>
        (\<exists>h''. destroy_at r h' = Inr h'') \<and>
        owns h' r) \<and>
     MoveFrom_at r r h = h"
  using CopyAndSwap_props [where s = s and other = r and this = r and dflt = dflt, OF assms(1)]
    CopyAndSwap_at_self [OF assms(2), of dflt]
  by (simp add: copy_assign_def move_assign_def MoveFrom_self MoveFrom_at_self)

theorem self_assignment_witness:
  "valid (two_objects 0) \<and> owns one_block 0 \<and>
   live (copy_assign 0 0 0 two_objects 0) = [1, 2, 3] \<and>
   sv_size (copy_assign 0 0 0 two_objects 0) = 3 \<and>
   move_assign 0 0 two_objects = two_objects \<and>
   (\<exists>h'. CopyAndSwap_at 0 0 0 one_block = Inr h' \<and> live_at h' 0 = [1, 2, 3] \<and>
      blocks h' 0 = None) \<and>
   MoveFrom_at 0 0 one_block = one_block"
proof -
  have o: "two_objects 0 = v123" by (simp add: two_objects_def)
  have v: "valid (two_objects 0)" by (simp add: o v123_def valid_def)
  have l: "live v123 = [1, 2, 3]" "sv_size v123 = 3" by (simp_all add: v123_def live_def)
  have w: "owns one_block 0" by (simp add: owns_def one_block_def)
  have b: "live_at one_block 0 = [1, 2, 3]" "at_data (vecs one_block 0) = Some 0"
    by (simp_all add: live_at_def block_at_def one_block_def)
  note t = self_assignment [where s = two_objects and r = 0 and dflt = 0 and h = one_block,
      OF v w]
  from t obtain h' where h': "CopyAndSwap_at 0 0 0 one_block = Inr h'"
    "live_at h' 0 = live_at one_block 0"
    "\<forall>a. at_data (vecs one_block 0) = Some a \<longrightarrow> blocks h' a = None" by blast
  from h'(3) b(2) have "blocks h' 0 = None" by blast
  with h'(1,2) b(1) have e: "\<exists>h'. CopyAndSwap_at 0 0 0 one_block = Inr h' \<and>
      live_at h' 0 = [1, 2, 3] \<and> blocks h' 0 = None" by auto
  from t have m: "live (copy_assign 0 0 0 two_objects 0) = live (two_objects 0)"
    "sv_size (copy_assign 0 0 0 two_objects 0) = sv_size (two_objects 0)"
    "move_assign 0 0 two_objects = two_objects" "MoveFrom_at 0 0 one_block = one_block"
    by blast+
  show ?thesis using v w e m o l by simp
qed


section \<open>The class invariant\<close>

text \<open>
  C9. Every constructor of either variant yields a vector that satisfies \<open>valid\<close>
  (\<open>size \<le> capacity\<close>, a block of exactly \<open>capacity\<close> slots, the first \<open>size\<close> of them
  the live elements), and every member function of either variant that returns keeps it:
  \<open>PushBack\<close>, \<open>PopBack\<close>, \<open>Clear\<close>, \<open>Resize\<close>, \<open>Reserve\<close>, \<open>Insert\<close>, \<open>Erase\<close> on the
  vector, and copy construction, move construction, copy assignment, move assignment and
  \<open>swap\<close> on every object of the store. \<open>PushBack\<close> and \<open>Insert\<close> keep it in both
  overloads and for every \<open>value\<close>, and \<open>PushBack\<close> of an object outside the block always
  returns.
\<close>

theorem class_invariant:
  "valid (SimpleVector_default :: 'a SimpleVector) \<and>
   valid (SimpleVector_reserve_A dflt n) \<and> valid (SimpleVector_reserve_B dflt n) \<and>
   valid (SimpleVector_size dflt n) \<and>
   valid (SimpleVector_fill_A dflt n x) \<and> valid (SimpleVector_fill_B dflt n x) \<and>
   valid (SimpleVector_init_A dflt init) \<and> valid (SimpleVector_init_B dflt init) \<and>
   (valid v \<longrightarrow>
      (\<exists>w. PushBack_A dflt mv ov (Outside x) v = Inr w \<and> valid w) \<and>
      (\<exists>w. PushBack_B dflt mv ov (Outside x) v = Inr w \<and> valid w) \<and>
      (\<forall>w. PushBack_A dflt mv ov a v = Inr w \<longrightarrow> valid w) \<and>
      (\<forall>w. PushBack_B dflt mv ov a v = Inr w \<longrightarrow> valid w) \<and>
      valid (PopBack v) \<and> valid (Clear v) \<and>
      valid (Resize_A dflt n v) \<and> valid (Resize_B dflt n v) \<and>
      valid (Reserve_A dflt n v) \<and> valid (Reserve_B dflt n v) \<and>
      (\<forall>q w. Insert_A dflt mv ov p a v = Inr (q, w) \<longrightarrow> valid w) \<and>
      (\<forall>q w. Insert_B dflt mv ov p a v = Inr (q, w) \<longrightarrow> valid w) \<and>
      (\<forall>q w. Erase_A mv p v = Inr (q, w) \<longrightarrow> valid w) \<and>
      (\<forall>q w. Erase_B mv p v = Inr (q, w) \<longrightarrow> valid w)) \<and>
   (all_valid s \<longrightarrow>
      all_valid (copy_construct dflt this other s) \<and>
      all_valid (move_construct this other s) \<and>
      all_valid (copy_assign dflt this other s) \<and>
      all_valid (move_assign this other s) \<and>
      all_valid (swap_sv this other s))"
proof -
  have ctor: "valid (SimpleVector_default :: 'a SimpleVector) \<and>
     valid (SimpleVector_reserve_A dflt n) \<and> valid (SimpleVector_reserve_B dflt n) \<and>
     valid (SimpleVector_size dflt n) \<and>
     valid (SimpleVector_fill_A dflt n x) \<and> valid (SimpleVector_fill_B dflt n x) \<and>
     valid (SimpleVector_init_A dflt init) \<and> valid (SimpleVector_init_B dflt init)"
    by (simp add: valid_reserve_A valid_reserve_B valid_fill_A valid_fill_B valid_init_A
        valid_init_B)
  have push: "(\<exists>w. PushBack_A dflt mv ov (Outside x) v = Inr w \<and> valid w) \<and>
      (\<exists>w. PushBack_B dflt mv ov (Outside x) v = Inr w \<and> valid w) \<and>
      (\<forall>w. PushBack_A dflt mv ov a v = Inr w \<longrightarrow> valid w) \<and>
      (\<forall>w. PushBack_B dflt mv ov a v = Inr w \<longrightarrow> valid w)" if v: "valid v"
    using PushBack_A_props [OF v, of dflt mv ov x] PushBack_B_props [OF v, of dflt mv ov x]
    by (auto dest: PushBack_A_valid [OF v] PushBack_B_valid [OF v])
  have one: "valid (PopBack v) \<and> valid (Clear v) \<and>
      valid (Resize_A dflt n v) \<and> valid (Resize_B dflt n v) \<and>
      valid (Reserve_A dflt n v) \<and> valid (Reserve_B dflt n v) \<and>
      (\<forall>q w. Insert_A dflt mv ov p a v = Inr (q, w) \<longrightarrow> valid w) \<and>
      (\<forall>q w. Insert_B dflt mv ov p a v = Inr (q, w) \<longrightarrow> valid w) \<and>
      (\<forall>q w. Erase_A mv p v = Inr (q, w) \<longrightarrow> valid w) \<and>
      (\<forall>q w. Erase_B mv p v = Inr (q, w) \<longrightarrow> valid w)" if v: "valid v"
    using valid_PopBack [OF v]
      valid_Clear [OF v] Resize_A_props(3) [OF v] Resize_B_props(3) [OF v]
      Reserve_A_props [OF v] Reserve_B_props [OF v]
    by (auto dest: Insert_A_valid [OF v] Insert_B_valid [OF v] Erase_A_valid [OF v]
        Erase_B_valid [OF v])
  have two: "all_valid (copy_construct dflt this other s) \<and>
      all_valid (move_construct this other s) \<and>
      all_valid (copy_assign dflt this other s) \<and>
      all_valid (move_assign this other s) \<and>
      all_valid (swap_sv this other s)" if s: "all_valid s"
  proof -
    have "all_valid (s(this := SimpleVector_default))"
      using s by (simp add: all_valid_upd)
    then show ?thesis
      using s by (simp add: copy_construct_def move_construct_def copy_assign_def
          move_assign_def all_valid_CopyAndSwap all_valid_MoveFrom all_valid_swap_sv)
  qed
  from ctor push one two show ?thesis by blast
qed

theorem class_invariant_witness:
  "valid v123 \<and> all_valid two_objects \<and>
   (\<exists>w. PushBack_A 0 id Copying (Outside 7) v123 = Inr w \<and> valid w) \<and>
   valid (Resize_B 0 9 v123) \<and>
   (\<exists>w. Insert_A 0 id Copying 1 (Outside 9) v123 = Inr (1, w) \<and> valid w) \<and>
   (\<exists>w. Insert_B 0 id Copying 0 (Slot 1) v123 = Inr (0, w) \<and> valid w \<and>
      live w = [1, 1, 2, 3]) \<and>
   (\<exists>w. Erase_B id 1 v123 = Inr (1, w) \<and> valid w) \<and>
   all_valid (copy_assign 0 0 1 two_objects) \<and> all_valid (swap_sv 0 1 two_objects)"
proof -
  have v: "valid v123" by (simp add: v123_def valid_def)
  have f: "valid (SimpleVector_fill_B (0::int) 2 5)" by (rule valid_fill_B)
  have s: "all_valid two_objects"
    using v f by (simp add: two_objects_def all_valid_def)
  have p: "(1::nat) \<le> sv_size v123" "(1::nat) < sv_size v123" "(1::nat) < 2 ^ 31"
    "sv_size v123 \<noteq> sv_capacity v123" "live v123 = [1, 2, 3]"
    by (simp_all add: v123_def live_def)
  have z: "0 \<le> to_int 0" "to_int 0 \<le> int (sv_size v123)" "0 = nat (to_int 0)"
    by (simp_all add: to_int_def)
  from Insert_A_props [OF v p(1) p(3), of 0 id Copying 9]
  obtain w where w: "Insert_A 0 id Copying 1 (Outside 9) v123 = Inr (1, w)" by blast
  from Insert_A_slot_room [where mv = id and ov = Copying and dflt = 0 and e = 1,
      OF v p(4) z(1,2) p(2) z(3)] p(5)
  obtain t where t: "Insert_B 0 id Copying 0 (Slot 1) v123 = Inr (0, t)" "live t = [1, 1, 2, 3]"
    by (auto simp: Insert_B_room_eq [OF p(4)])
  from Erase_A_props [OF v p(2) p(3), of id]
  obtain u where u: "Erase_B id 1 v123 = Inr (1, u)" by (auto simp: Erase_B_eq)
  note c = class_invariant [where v = v123 and s = two_objects and dflt = 0 and mv = id
      and ov = Copying and p = 1 and this = 0 and other = 1 and x = 7]
  note c0 = class_invariant [where v = v123 and dflt = 0 and mv = id
      and ov = Copying and p = 0 and a = "Slot 1"]
  from c v have i: "valid w" if "Insert_A 0 id Copying 1 (Outside 9) v123 = Inr (1, w)" for w
    using that by blast
  from c0 v have j: "valid w" if "Insert_B 0 id Copying 0 (Slot 1) v123 = Inr (0, w)" for w
    using that by blast
  from c v have e: "valid u" if "Erase_B id 1 v123 = Inr (1, u)" for u
    using that by blast
  from c v s have r: "\<exists>w. PushBack_A 0 id Copying (Outside 7) v123 = Inr w \<and> valid w"
    "valid (Resize_B 0 9 v123)"
    "all_valid (copy_assign 0 0 1 two_objects)" "all_valid (swap_sv 0 1 two_objects)"
    by blast+
  show ?thesis
    using v s r w u t i [OF w] j [OF t(1)] e [OF u] by blast
qed


section \<open>The two variants\<close>

text \<open>
  C8, as the code has it. Run from a store of default-constructed vectors, every
  sequence of constructor calls, \<open>PushBack\<close>, \<open>Insert\<close>, \<open>Erase\<close>, \<open>Resize\<close>, \<open>Reserve\<close>,
  \<open>Clear\<close>, \<open>PopBack\<close>, \<open>At\<close>, \<open>operator[]\<close> below the size, copies, moves, swaps,
  comparisons and queries shows the same to its caller in both variants, call by call:
  the same sizes, elements, iterators, comparison results and \<open>OutOfRange\<close> errors, and
  undefined behaviour at the same call. The capacities agree too, except that variant A
  may report capacity 1 where variant B reports 0. \<open>PushBack\<close> and \<open>Insert\<close> are called
  in either overload, with an object outside the block or with an element of the vector
  itself.
\<close>

theorem variants_agree:
  "list_all2 agree (run Variant_A dflt mv lt cs no_objects) (run Variant_B dflt mv lt cs no_objects)"
  by (rule run_rel [OF rel_objects_no_objects])

theorem variants_agree_witness:
  "run Variant_A 0 id (<) converge no_objects = [Done, Cap 1, Done, Cap 1, Elems [7]] \<and>
   run Variant_B 0 id (<) converge no_objects = [Done, Cap 0, Done, Cap 1, Elems [7]] \<and>
   list_all2 agree (run Variant_A 0 id (<) converge no_objects)
     (run Variant_B 0 id (<) converge no_objects) \<and>
   run Variant_A 0 id (<) aliased no_objects
     = [Done, Done, Done, Elems [7, 7], Raised UndefinedBehaviour] \<and>
   run Variant_B 0 id (<) aliased no_objects
     = [Done, Done, Done, Elems [7, 7], Raised UndefinedBehaviour] \<and>
   list_all2 agree (run Variant_A 0 id (<) aliased no_objects)
     (run Variant_B 0 id (<) aliased no_objects)"
  using variants_agree [of 0 id "(<)" converge] variants_agree [of 0 id "(<)" aliased]
    converge_A converge_B aliased_A aliased_B
  by simp

text \<open>
  C8 as stated fails: after \<open>Reserve(0)\<close> on a default-constructed vector, \<open>GetCapacity\<close>
  is 1 in variant A and 0 in variant B.
\<close>

theorem variants_capacity_counterexample:
  "run Variant_A (0::int) id (<) [Call_Reserve 0 0, Call_GetCapacity 0] no_objects = [Done, Cap 1] \<and>
   run Variant_B (0::int) id (<) [Call_Reserve 0 0, Call_GetCapacity 0] no_objects = [Done, Cap 0] \<and>
   run Variant_A (0::int) id (<) [Call_Reserve 0 0, Call_GetCapacity 0] no_objects
     \<noteq> run Variant_B (0::int) id (<) [Call_Reserve 0 0, Call_GetCapacity 0] no_objects"
  by (simp add: no_objects_def Reserve_of_def Reserve_A_def Reserve_B_def GetCapacity_def
      SimpleVector_default_def ArrayPtr_size_def)

end
